theory Spec2Isabelle
  imports Main
begin

section \<open>Strings as the server code uses them\<close>

text \<open>
  A JavaScript string is modelled as a \<^typ>\<open>string\<close>; the characters of the model are the
  code units below 256. The line feed and the carriage return are the two characters the
  push-protocol encoder looks at.
\<close>

definition LF :: char where
  "LF = CHR 0x0A"

definition CR :: char where
  "CR = CHR 0x0D"

text \<open>\<^verbatim>\<open>parts.join(sep)\<close> of JavaScript.\<close>

fun join :: "string \<Rightarrow> string list \<Rightarrow> string" where
  "join sep [] = []"
| "join sep [x] = x"
| "join sep (x # y # ys) = x @ sep @ join sep (y # ys)"

text \<open>\<^verbatim>\<open>String(n)\<close> for a non-negative integer: its decimal digits.\<close>

definition digit_char :: "nat \<Rightarrow> char" where
  "digit_char d = ''0123456789'' ! (d mod 10)"

function String_nat :: "nat \<Rightarrow> string" where
  "String_nat n = (if n < 10 then [digit_char n] else String_nat (n div 10) @ [digit_char (n mod 10)])"
  by pat_completeness auto
termination
  by (relation "measure id") auto

declare String_nat.simps [simp del]

text \<open>
  JavaScript's \<^verbatim>\<open>String.prototype.trim\<close>: the white space and line terminator code units
  below 256 are TAB, LF, VT, FF, CR, SPACE and NBSP.
\<close>

definition isWhiteSpace :: "char \<Rightarrow> bool" where
  "isWhiteSpace c = (c \<in> set [CHR 0x09, CHR 0x0A, CHR 0x0B, CHR 0x0C, CHR 0x0D, CHR 0x20, CHR 0xA0])"

definition trim :: "string \<Rightarrow> string" where
  "trim s = rev (dropWhile isWhiteSpace (rev (dropWhile isWhiteSpace s)))"

section \<open>The push-protocol encoder (sse.ts)\<close>

text \<open>
  The payload of a frame is what \<^verbatim>\<open>formatSse(event, data)\<close> receives as \<^verbatim>\<open>data\<close>:
  \<^verbatim>\<open>undefined\<close>, or a JSON value (\<^verbatim>\<open>null\<close>, a string, or anything else, which is
  serialised by \<^verbatim>\<open>JSON.stringify\<close>). A JavaScript number is a double; the numbers of the
  model are the integers a double holds exactly (\<^verbatim>\<open>Number.isSafeInteger\<close>, at most
  \<^verbatim>\<open>2^53 - 1\<close> in absolute value), which \<^verbatim>\<open>JSON.stringify\<close> writes in decimal digits.
  Other numbers are not values of the model.
\<close>

typedef safe_int = "{i :: int. - 9007199254740991 \<le> i \<and> i \<le> 9007199254740991}"
  by (rule exI[of _ 0]) simp

datatype jval =
    JNull
  | JBool bool
  | JNum safe_int
  | JStr string
  | JArr "jval list"
  | JObj "(string \<times> jval) list"

datatype sse_data = DUndefined | DValue jval

definition hex_char :: "nat \<Rightarrow> char" where
  "hex_char d = ''0123456789abcdef'' ! (d mod 16)"

text \<open>The escape of one code unit inside a JSON string literal, as \<^verbatim>\<open>JSON.stringify\<close> writes it.\<close>

definition json_escape :: "char \<Rightarrow> string" where
  "json_escape c =
     (if c = CHR 0x22 then [CHR 0x5C, CHR 0x22]
      else if c = CHR 0x5C then [CHR 0x5C, CHR 0x5C]
      else if c = CHR 0x08 then [CHR 0x5C, CHR ''b'']
      else if c = CHR 0x0C then [CHR 0x5C, CHR ''f'']
      else if c = CHR 0x0A then [CHR 0x5C, CHR ''n'']
      else if c = CHR 0x0D then [CHR 0x5C, CHR ''r'']
      else if c = CHR 0x09 then [CHR 0x5C, CHR ''t'']
      else if of_char c < (32 :: nat)
        then [CHR 0x5C, CHR ''u'', CHR ''0'', CHR ''0'', hex_char (of_char c div 16), hex_char (of_char c)]
      else [c])"

definition json_quote :: "string \<Rightarrow> string" where
  "json_quote s = [CHR 0x22] @ concat (map json_escape s) @ [CHR 0x22]"

text \<open>A number as \<^verbatim>\<open>JSON.stringify\<close> writes it: for a safe integer, its decimal digits
  after the sign.\<close>

definition json_int :: "safe_int \<Rightarrow> string" where
  "json_int n =
     (let i = Rep_safe_int n in
      if i < 0 then CHR ''-'' # String_nat (nat (- i)) else String_nat (nat i))"

fun JSON_stringify :: "jval \<Rightarrow> string" where
  "JSON_stringify JNull = ''null''"
| "JSON_stringify (JBool b) = (if b then ''true'' else ''false'')"
| "JSON_stringify (JNum n) = json_int n"
| "JSON_stringify (JStr s) = json_quote s"
| "JSON_stringify (JArr vs) = ''['' @ join '','' (map JSON_stringify vs) @ '']''"
| "JSON_stringify (JObj kvs) =
     ''{'' @ join '','' (map (\<lambda>kv. json_quote (fst kv) @ '':'' @ JSON_stringify (snd kv)) kvs) @ ''}''"

text \<open>\<^verbatim>\<open>data.split(/\r?\n/)\<close>: the pieces between line feeds, a carriage return directly
  before a line feed belonging to the separator.\<close>

fun cons_first :: "char \<Rightarrow> string list \<Rightarrow> string list" where
  "cons_first c [] = [[c]]"
| "cons_first c (p # ps) = (c # p) # ps"

fun split_lines :: "string \<Rightarrow> string list" where
  "split_lines [] = [[]]"
| "split_lines [c] = (if c = LF then [[], []] else [[c]])"
| "split_lines (c # d # cs) =
     (if c = CR \<and> d = LF then [] # split_lines cs
      else if c = LF then [] # split_lines (d # cs)
      else cons_first c (split_lines (d # cs)))"

text \<open>
  \<^verbatim>\<open>formatSse\<close>: the lines of the frame, and the frame itself, which is
  \<^verbatim>\<open>lines.join('\n') + '\n'\<close> after the empty string has been pushed as the last line.
  The encoder (\<^verbatim>\<open>TextEncoder\<close>) is left out: the frame is the text it encodes.
\<close>

definition event_line :: "string \<Rightarrow> string list" where
  "event_line event = (if event \<noteq> [] then [''event: '' @ event] else [])"

definition data_lines :: "sse_data \<Rightarrow> string list" where
  "data_lines d =
     (case d of
        DUndefined \<Rightarrow> [''data:'']
      | DValue JNull \<Rightarrow> [''data: null'']
      | DValue (JStr s) \<Rightarrow> map (\<lambda>part. ''data: '' @ part) (split_lines s)
      | DValue v \<Rightarrow> [''data: '' @ JSON_stringify v])"

definition sse_lines :: "string \<Rightarrow> sse_data \<Rightarrow> string list" where
  "sse_lines event d = event_line event @ data_lines d @ [[]]"

definition formatSse :: "string \<Rightarrow> sse_data \<Rightarrow> string" where
  "formatSse event d = join [LF] (sse_lines event d) @ [LF]"

text \<open>
  The reader's side of the push protocol, used to state what a well-formed frame is. The
  channel is \<^verbatim>\<open>text/event-stream\<close> and its reader is the browser's \<^verbatim>\<open>EventSource\<close>
  (sseClient.ts), which is not part of the code: it ends a line at a carriage return
  followed by a line feed, at a line feed, and at a carriage return alone, and it takes
  the run of non-empty lines before an empty line as one frame. Text after the last line
  end is not a line.
\<close>

fun read_lines :: "string \<Rightarrow> string \<Rightarrow> string list" where
  "read_lines cur [] = []"
| "read_lines cur [c] = (if c = LF \<or> c = CR then [rev cur] else [])"
| "read_lines cur (c # d # cs) =
     (if c = CR \<and> d = LF then rev cur # read_lines [] cs
      else if c = LF \<or> c = CR then rev cur # read_lines [] (d # cs)
      else read_lines (c # cur) (d # cs))"

fun group_frames :: "string list \<Rightarrow> string list \<Rightarrow> string list list" where
  "group_frames cur [] = []"
| "group_frames cur (l # ls) =
     (if l = [] then rev cur # group_frames [] ls else group_frames (l # cur) ls)"

definition decode_stream :: "string \<Rightarrow> string list list" where
  "decode_stream t = group_frames [] (read_lines [] t)"

definition first_line :: "string \<Rightarrow> string" where
  "first_line t = takeWhile (\<lambda>c. c \<noteq> LF \<and> c \<noteq> CR) t"

text \<open>A string in which every carriage return is directly followed by a line feed.\<close>

fun no_lone_CR :: "string \<Rightarrow> bool" where
  "no_lone_CR [] = True"
| "no_lone_CR [c] = (c \<noteq> CR)"
| "no_lone_CR (c # d # cs) = (if c = CR then d = LF \<and> no_lone_CR cs else no_lone_CR (d # cs))"

text \<open>A frame whose event name holds no line end and whose payload, when it is a string,
  holds no carriage return other than directly before a line feed.\<close>

definition plain_frame :: "string \<Rightarrow> sse_data \<Rightarrow> bool" where
  "plain_frame event d =
     (LF \<notin> set event \<and> CR \<notin> set event
      \<and> (case d of DValue (JStr s) \<Rightarrow> no_lone_CR s | _ \<Rightarrow> True))"

text \<open>The lines of a frame before its terminating empty line.\<close>

definition frame_body :: "string \<Rightarrow> sse_data \<Rightarrow> string list" where
  "frame_body event d = butlast (sse_lines event d)"

section \<open>The transcript model (agent-session.ts)\<close>

text \<open>
  The repository holds two copies of the session reducer: the file
  \<^verbatim>\<open>src/server/agent-session.ts\<close>, and a later copy of the same module that follows
  \<^verbatim>\<open>src/server/index.ts\<close> in the same source file and adds sub-agent tool calls. The
  functions both copies share word for word are modelled once; where the copies differ,
  the function takes the copy as a parameter or has one definition per copy.
\<close>

datatype version = AgentSessionTs | IndexTs

datatype SessionState = Idle | Running | Error

datatype Role = User | Assistant

text \<open>
  A JSON value the reducer only stores and passes on (a tool's input, a parsed input) is
  represented by its text as \<^verbatim>\<open>JSON.stringify(v, null, 2)\<close> prints it.
\<close>

type_synonym json_text = string

record SubagentToolCall =
  sub_id :: string
  sub_name :: string
  sub_input :: json_text
  sub_streamIndex :: "nat option"
  sub_inputJson :: "string option"
  sub_parsedInput :: "json_text option"
  sub_result :: "string option"
  sub_isLoading :: "bool option"
  sub_isError :: "bool option"

record ToolUseState =
  tool_id :: string
  tool_name :: string
  tool_input :: json_text
  streamIndex :: "nat option"
  inputJson :: "string option"
  parsedInput :: "json_text option"
  result :: "string option"
  isLoading :: "bool option"
  isError :: "bool option"
  subagentCalls :: "SubagentToolCall list option"

datatype BlockType = TextBlock | ToolUseBlock | ThinkingBlock

record ContentBlock =
  btype :: BlockType
  block_text :: "string option"
  tool :: "ToolUseState option"
  thinking :: "string option"
  thinkingStartedAt :: "int option"
  thinkingDurationMs :: "int option"
  thinkingStreamIndex :: "nat option"
  isComplete :: "bool option"

datatype Content = Plain string | Blocks "ContentBlock list"

record MessageWire =
  msg_id :: string
  role :: Role
  content :: Content
  timestamp :: string

text \<open>
  The clock as one call reads it: \<^verbatim>\<open>Date.now()\<close> in milliseconds and
  \<^verbatim>\<open>new Date().toISOString()\<close>.
\<close>

record clock =
  ms :: int
  iso :: string

text \<open>
  What \<^verbatim>\<open>broadcast(event, data)\<close> is given as \<^verbatim>\<open>data\<close>. A property whose value is
  \<^verbatim>\<open>undefined\<close> is left out of its object, as the serialiser leaves it out.
\<close>

datatype pval =
    VNull
  | VStr string
  | VNum nat
  | VBool bool
  | VRaw json_text
  | VState SessionState
  | VMsg MessageWire
  | VStrs "string list"
  | VObj "(string \<times> pval) list"

text \<open>An entry of \<^verbatim>\<open>messageQueue\<close>: the user text of the message and the call whose
  promise its \<^verbatim>\<open>resolve\<close> settles.\<close>

record queue_item =
  item_text :: string
  item_call :: nat

text \<open>
  The helpers \<^verbatim>\<open>parsePartialJson\<close> (renderer/utils, not among the sources) and
  \<^verbatim>\<open>JSON.parse\<close> are parameters: \<^verbatim>\<open>parsePartialJson\<close> gives \<open>None\<close> when its
  result is \<^verbatim>\<open>undefined\<close> or falsy, which is all the reducer asks of it, and
  \<^verbatim>\<open>JSON_parse\<close> gives \<open>None\<close> when \<^verbatim>\<open>JSON.parse\<close> throws.
\<close>

record config =
  version :: version
  parsePartialJson :: "string \<Rightarrow> json_text option"
  JSON_parse :: "string \<Rightarrow> json_text option"

text \<open>
  The module's variables. The fields after \<open>messageQueue\<close> up to \<open>systemInitInfo\<close>
  exist in the later copy only. The last group is not in the source: it records what the
  module does to its surroundings (the events broadcast, the calls of the runtime's
  \<^verbatim>\<open>interrupt()\<close>, the promises settled) and where each asynchronous function is
  suspended, so that the interleavings of the module's functions can be stated.
\<close>

text \<open>
  Where the message generator of a run stands: not yet started, suspended at the
  \<^verbatim>\<open>yield\<close> of an item (with the session id it yielded), waiting for the queue with a timer
  pending, woken (its promise is resolved, the continuation of the \<^verbatim>\<open>await\<close> has not run
  yet), or finished.
\<close>

datatype feed_state = AtStart | AtYield queue_item string | Polling | Woken | Finished

record session =
  agentDir :: string
  hasInitialPrompt :: bool
  sessionState :: SessionState
  querySession :: "nat option"
  isProcessing :: bool
  shouldAbortSession :: bool
  sessionTerminationPromise :: "nat option"
  isInterruptingResponse :: bool
  isStreamingMessage :: bool
  messages :: "MessageWire list"
  streamIndexToToolId :: "nat \<rightharpoonup> string"
  messageSequence :: nat
  messageQueue :: "queue_item list"
  toolResultIndexToId :: "nat \<rightharpoonup> string"
  childToolToParent :: "string \<rightharpoonup> string"
  sessionId :: string
  logLines :: "string list"
  systemInitInfo :: "string option"
  broadcasts :: "(string \<times> pval) list"
  liveRuns :: "(nat \<times> nat) list"
  runSeq :: nat
  startWaiters :: "nat list"
  promiseSeq :: nat
  resolvedPromises :: "nat list"
  interruptCalls :: nat
  interruptsInFlight :: nat
  callSeq :: nat
  feeds :: "nat \<rightharpoonup> feed_state"
  resolvedCalls :: "nat list"

definition broadcast :: "string \<Rightarrow> pval \<Rightarrow> session \<Rightarrow> session" where
  "broadcast event d s = s\<lparr>broadcasts := broadcasts s @ [(event, d)]\<rparr>"

definition setSessionState :: "SessionState \<Rightarrow> session \<Rightarrow> session" where
  "setSessionState nextState s =
     (if sessionState s = nextState then s
      else broadcast ''chat:status'' (VObj [(''sessionState'', VState nextState)])
             (s\<lparr>sessionState := nextState\<rparr>))"

text \<open>Truthiness of an optional string, and the string it stands for where the code
  falls back to the empty string.\<close>

definition truthy :: "string option \<Rightarrow> bool" where
  "truthy v = (case v of None \<Rightarrow> False | Some t \<Rightarrow> t \<noteq> [])"

definition or_empty :: "string option \<Rightarrow> string" where
  "or_empty v = (case v of None \<Rightarrow> [] | Some t \<Rightarrow> t)"

text \<open>
  \<^verbatim>\<open>ensureAssistantMessage\<close> returns the last message, pushing a fresh assistant message
  first unless the last one is an assistant message still streaming. In the model the
  message it returns is the last message of the state it returns.
\<close>

definition ensureAssistantMessage :: "clock \<Rightarrow> session \<Rightarrow> session" where
  "ensureAssistantMessage now s =
     (if messages s \<noteq> [] \<and> role (last (messages s)) = Assistant \<and> isStreamingMessage s then s
      else s\<lparr>messages := messages s @
                 [\<lparr>msg_id = String_nat (messageSequence s), role = Assistant,
                   content = Plain [], timestamp = iso now\<rparr>],
               messageSequence := Suc (messageSequence s),
               isStreamingMessage := True\<rparr>)"

definition text_block :: "string \<Rightarrow> ContentBlock" where
  "text_block t =
     \<lparr>btype = TextBlock, block_text = Some t, tool = None, thinking = None,
      thinkingStartedAt = None, thinkingDurationMs = None, thinkingStreamIndex = None,
      isComplete = None\<rparr>"

text \<open>\<^verbatim>\<open>ensureContentArray\<close>: the content of the message as a block array, converting a
  string (a non-empty one becomes one text block).\<close>

definition ensureContentArray :: "MessageWire \<Rightarrow> ContentBlock list" where
  "ensureContentArray m =
     (case content m of
        Plain t \<Rightarrow> (if t \<noteq> [] then [text_block t] else [])
      | Blocks bs \<Rightarrow> bs)"

text \<open>The last message replaced: every handler below works on the message that
  \<^verbatim>\<open>ensureAssistantMessage\<close> returned.\<close>

definition update_last_message :: "(MessageWire \<Rightarrow> MessageWire) \<Rightarrow> session \<Rightarrow> session" where
  "update_last_message f s =
     (if messages s = [] then s
      else s\<lparr>messages := butlast (messages s) @ [f (last (messages s))]\<rparr>)"

text \<open>A handler that takes the block array of the open assistant message and leaves a new one.\<close>

definition on_content_array :: "clock \<Rightarrow> (ContentBlock list \<Rightarrow> ContentBlock list) \<Rightarrow> session \<Rightarrow> session" where
  "on_content_array now f s =
     update_last_message (\<lambda>m. m\<lparr>content := Blocks (f (ensureContentArray m))\<rparr>)
       (ensureAssistantMessage now s)"

text \<open>\<^verbatim>\<open>array.find(p)\<close> followed by a mutation of the element found: the first element that
  satisfies \<open>p\<close> is replaced, and nothing changes when there is none.\<close>

fun modify_first :: "('a \<Rightarrow> bool) \<Rightarrow> ('a \<Rightarrow> 'a) \<Rightarrow> 'a list \<Rightarrow> 'a list" where
  "modify_first p f [] = []"
| "modify_first p f (x # xs) = (if p x then f x # xs else x # modify_first p f xs)"

definition appendTextChunk :: "clock \<Rightarrow> string \<Rightarrow> session \<Rightarrow> session" where
  "appendTextChunk now chunk s =
     update_last_message
       (\<lambda>m. case content m of
               Plain t \<Rightarrow> m\<lparr>content := Plain (t @ chunk)\<rparr>
             | Blocks bs \<Rightarrow>
                 (if bs \<noteq> [] \<and> btype (last bs) = TextBlock
                  then m\<lparr>content := Blocks (butlast bs @
                          [(last bs)\<lparr>block_text := Some (or_empty (block_text (last bs)) @ chunk)\<rparr>])\<rparr>
                  else m\<lparr>content := Blocks (bs @ [text_block chunk])\<rparr>))
       (ensureAssistantMessage now s)"

definition handleThinkingStart :: "clock \<Rightarrow> nat \<Rightarrow> session \<Rightarrow> session" where
  "handleThinkingStart now index s =
     on_content_array now
       (\<lambda>bs. bs @ [\<lparr>btype = ThinkingBlock, block_text = None, tool = None, thinking = Some [],
                     thinkingStartedAt = Some (ms now), thinkingDurationMs = None,
                     thinkingStreamIndex = Some index, isComplete = None\<rparr>]) s"

definition open_thinking :: "nat \<Rightarrow> ContentBlock \<Rightarrow> bool" where
  "open_thinking index b =
     (btype b = ThinkingBlock \<and> thinkingStreamIndex b = Some index \<and> isComplete b \<noteq> Some True)"

definition handleThinkingChunk :: "clock \<Rightarrow> nat \<Rightarrow> string \<Rightarrow> session \<Rightarrow> session" where
  "handleThinkingChunk now index delta s =
     on_content_array now
       (modify_first (open_thinking index)
          (\<lambda>b. b\<lparr>thinking := Some (or_empty (thinking b) @ delta)\<rparr>)) s"

definition tool_block :: "ToolUseState \<Rightarrow> ContentBlock" where
  "tool_block t =
     \<lparr>btype = ToolUseBlock, block_text = None, tool = Some t, thinking = None,
      thinkingStartedAt = None, thinkingDurationMs = None, thinkingStreamIndex = None,
      isComplete = None\<rparr>"

text \<open>The payload of a tool-use start: \<^verbatim>\<open>{id, name, input, streamIndex}\<close>; the stream index
  is absent when the tool is announced by a whole assistant message.\<close>

record tool_payload =
  p_id :: string
  p_name :: string
  p_input :: json_text
  p_streamIndex :: "nat option"

definition handleToolUseStart :: "clock \<Rightarrow> tool_payload \<Rightarrow> session \<Rightarrow> session" where
  "handleToolUseStart now t s =
     on_content_array now
       (\<lambda>bs. bs @ [tool_block
          \<lparr>tool_id = p_id t, tool_name = p_name t, tool_input = p_input t,
           streamIndex = p_streamIndex t, inputJson = Some [], parsedInput = None,
           result = None, isLoading = None, isError = None, subagentCalls = None\<rparr>]) s"

definition is_tool :: "string \<Rightarrow> ContentBlock \<Rightarrow> bool" where
  "is_tool toolId b = (btype b = ToolUseBlock \<and> (case tool b of None \<Rightarrow> False | Some t \<Rightarrow> tool_id t = toolId))"

definition is_tool_at :: "nat \<Rightarrow> ContentBlock \<Rightarrow> bool" where
  "is_tool_at index b =
     (btype b = ToolUseBlock \<and> (case tool b of None \<Rightarrow> False | Some t \<Rightarrow> streamIndex t = Some index))"

definition on_tool :: "(ToolUseState \<Rightarrow> ToolUseState) \<Rightarrow> ContentBlock \<Rightarrow> ContentBlock" where
  "on_tool f b = b\<lparr>tool := map_option f (tool b)\<rparr>"

definition handleToolInputDelta :: "config \<Rightarrow> clock \<Rightarrow> nat \<Rightarrow> string \<Rightarrow> string \<Rightarrow> session \<Rightarrow> session" where
  "handleToolInputDelta cfg now index toolId delta s =
     on_content_array now
       (modify_first (is_tool toolId)
          (on_tool (\<lambda>t. let newInputJson = or_empty (inputJson t) @ delta in
                     case parsePartialJson cfg newInputJson of
                       Some parsed \<Rightarrow> t\<lparr>inputJson := Some newInputJson, parsedInput := Some parsed\<rparr>
                     | None \<Rightarrow> t\<lparr>inputJson := Some newInputJson\<rparr>))) s"

text \<open>The reconciliation of a closing tool block: a strict parse, and the partial parser
  when the strict parse throws.\<close>

definition reconcile_input :: "config \<Rightarrow> string option \<Rightarrow> json_text option \<Rightarrow> json_text option" where
  "reconcile_input cfg ij old =
     (if truthy ij then
        (case JSON_parse cfg (or_empty ij) of
           Some v \<Rightarrow> Some v
         | None \<Rightarrow> (case parsePartialJson cfg (or_empty ij) of Some parsed \<Rightarrow> Some parsed | None \<Rightarrow> old))
      else old)"

definition handleContentBlockStop :: "config \<Rightarrow> clock \<Rightarrow> nat \<Rightarrow> string option \<Rightarrow> session \<Rightarrow> session" where
  "handleContentBlockStop cfg now index toolId s =
     on_content_array now
       (\<lambda>bs. if \<exists>b \<in> set bs. open_thinking index b
             then modify_first (open_thinking index)
                    (\<lambda>b. b\<lparr>isComplete := Some True,
                           thinkingDurationMs :=
                             (case thinkingStartedAt b of
                                None \<Rightarrow> None
                              | Some t \<Rightarrow> if t \<noteq> 0 then Some (ms now - t) else None)\<rparr>) bs
             else modify_first (if truthy toolId then is_tool (or_empty toolId) else is_tool_at index)
                    (on_tool (\<lambda>t. t\<lparr>parsedInput := reconcile_input cfg (inputJson t) (parsedInput t)\<rparr>)) bs) s"

definition handleMessageComplete :: "session \<Rightarrow> session" where
  "handleMessageComplete s = setSessionState Idle (s\<lparr>isStreamingMessage := False\<rparr>)"

definition close_thinking :: "clock \<Rightarrow> ContentBlock \<Rightarrow> ContentBlock" where
  "close_thinking now b =
     (if btype b = ThinkingBlock \<and> isComplete b \<noteq> Some True
      then b\<lparr>isComplete := Some True,
             thinkingDurationMs :=
               (case thinkingStartedAt b of
                  None \<Rightarrow> None
                | Some t \<Rightarrow> if t \<noteq> 0 then Some (ms now - t) else None)\<rparr>
      else b)"

definition handleMessageStopped :: "clock \<Rightarrow> session \<Rightarrow> session" where
  "handleMessageStopped now s =
     (let s1 = setSessionState Idle (s\<lparr>isStreamingMessage := False\<rparr>) in
      if messages s1 = [] \<or> role (last (messages s1)) \<noteq> Assistant then s1
      else (case content (last (messages s1)) of
              Plain t \<Rightarrow> s1
            | Blocks bs \<Rightarrow>
                update_last_message (\<lambda>m. m\<lparr>content := Blocks (map (close_thinking now) bs)\<rparr>) s1))"

definition handleMessageError :: "clock \<Rightarrow> string \<Rightarrow> session \<Rightarrow> session" where
  "handleMessageError now err s =
     (let s1 = setSessionState Idle (s\<lparr>isStreamingMessage := False\<rparr>) in
      s1\<lparr>messages := messages s1 @
             [\<lparr>msg_id = String_nat (messageSequence s1), role = Assistant,
               content = Plain (''Error: '' @ err), timestamp = iso now\<rparr>],
          messageSequence := Suc (messageSequence s1)\<rparr>)"

subsection \<open>Tool results in agent-session.ts\<close>

text \<open>In agent-session.ts a tool result is written to the tool block of the open assistant
  message; \<^verbatim>\<open>handleToolResultStart\<close> and \<^verbatim>\<open>handleToolResultComplete\<close> differ in the type
  of \<^verbatim>\<open>isError\<close> only.\<close>

definition handleToolResult_v1 :: "clock \<Rightarrow> string \<Rightarrow> string \<Rightarrow> bool option \<Rightarrow> session \<Rightarrow> session" where
  "handleToolResult_v1 now toolUseId c isErr s =
     on_content_array now
       (modify_first (is_tool toolUseId)
          (on_tool (\<lambda>t. t\<lparr>result := Some c, isError := isErr\<rparr>))) s"

subsection \<open>Tool results and sub-agent tool calls in the later copy\<close>

text \<open>
  \<^verbatim>\<open>findToolBlockById\<close> runs from the last message to the first and takes, in the first
  assistant message with a block array that has one, the first tool block with the id. The
  model scans the reversed list of messages. The code mutates the tool it found in place;
  \<open>modifyToolBlock\<close> is that mutation.
\<close>

definition owns_tool :: "string \<Rightarrow> MessageWire \<Rightarrow> bool" where
  "owns_tool toolUseId m =
     (role m = Assistant \<and>
      (case content m of Plain t \<Rightarrow> False | Blocks bs \<Rightarrow> \<exists>b \<in> set bs. is_tool toolUseId b))"

definition tool_in :: "string \<Rightarrow> MessageWire \<Rightarrow> ToolUseState option" where
  "tool_in toolUseId m =
     (case content m of
        Plain t \<Rightarrow> None
      | Blocks bs \<Rightarrow> (case find (is_tool toolUseId) bs of None \<Rightarrow> None | Some b \<Rightarrow> tool b))"

fun find_owner :: "string \<Rightarrow> MessageWire list \<Rightarrow> ToolUseState option" where
  "find_owner toolUseId [] = None"
| "find_owner toolUseId (m # rest) =
     (if owns_tool toolUseId m then tool_in toolUseId m else find_owner toolUseId rest)"

definition findToolBlockById :: "string \<Rightarrow> session \<Rightarrow> ToolUseState option" where
  "findToolBlockById toolUseId s = find_owner toolUseId (rev (messages s))"

fun modify_owner :: "string \<Rightarrow> (ToolUseState \<Rightarrow> ToolUseState) \<Rightarrow> MessageWire list \<Rightarrow> MessageWire list" where
  "modify_owner toolUseId f [] = []"
| "modify_owner toolUseId f (m # rest) =
     (if owns_tool toolUseId m
      then m\<lparr>content := (case content m of
                            Plain t \<Rightarrow> Plain t
                          | Blocks bs \<Rightarrow> Blocks (modify_first (is_tool toolUseId) (on_tool f) bs))\<rparr> # rest
      else m # modify_owner toolUseId f rest)"

definition modifyToolBlock :: "string \<Rightarrow> (ToolUseState \<Rightarrow> ToolUseState) \<Rightarrow> session \<Rightarrow> session" where
  "modifyToolBlock toolUseId f s = s\<lparr>messages := rev (modify_owner toolUseId f (rev (messages s)))\<rparr>"

definition calls_of :: "ToolUseState \<Rightarrow> SubagentToolCall list" where
  "calls_of t = (case subagentCalls t of None \<Rightarrow> [] | Some cs \<Rightarrow> cs)"

definition has_call :: "string \<Rightarrow> ToolUseState \<Rightarrow> bool" where
  "has_call toolUseId t = (\<exists>c \<in> set (calls_of t). sub_id c = toolUseId)"

definition handleSubagentToolUseStart :: "string \<Rightarrow> tool_payload \<Rightarrow> session \<Rightarrow> session" where
  "handleSubagentToolUseStart parentToolUseId t s =
     (case findToolBlockById parentToolUseId s of
        None \<Rightarrow> s
      | Some parentTool \<Rightarrow>
          modifyToolBlock parentToolUseId
            (\<lambda>pt. if has_call (p_id t) pt
                  then pt\<lparr>subagentCalls := Some (modify_first (\<lambda>c. sub_id c = p_id t)
                            (\<lambda>c. c\<lparr>sub_name := p_name t, sub_input := p_input t,
                                   sub_streamIndex := p_streamIndex t\<rparr>) (calls_of pt))\<rparr>
                  else pt\<lparr>subagentCalls := Some (calls_of pt @
                            [\<lparr>sub_id = p_id t, sub_name = p_name t, sub_input = p_input t,
                              sub_streamIndex = p_streamIndex t, sub_inputJson = Some (p_input t),
                              sub_parsedInput = None, sub_result = None,
                              sub_isLoading = Some True, sub_isError = None\<rparr>])\<rparr>)
            (s\<lparr>childToolToParent := (childToolToParent s)(p_id t \<mapsto> parentToolUseId)\<rparr>))"

text \<open>The entry \<^verbatim>\<open>ensureSubagentToolPlaceholder\<close> pushes for a child id whose start was not seen.\<close>

definition placeholder :: "string \<Rightarrow> SubagentToolCall" where
  "placeholder toolUseId =
     \<lparr>sub_id = toolUseId, sub_name = ''Tool'', sub_input = ''{}'', sub_streamIndex = None,
      sub_inputJson = Some ''{}'', sub_parsedInput = None, sub_result = None,
      sub_isLoading = Some True, sub_isError = None\<rparr>"

definition ensureSubagentToolPlaceholder :: "string \<Rightarrow> string \<Rightarrow> session \<Rightarrow> session" where
  "ensureSubagentToolPlaceholder parentToolUseId toolUseId s =
     (case findToolBlockById parentToolUseId s of
        None \<Rightarrow> s
      | Some parentTool \<Rightarrow>
          if has_call toolUseId parentTool then s
          else modifyToolBlock parentToolUseId
                 (\<lambda>pt. pt\<lparr>subagentCalls := Some (calls_of pt @ [placeholder toolUseId])\<rparr>)
                 (s\<lparr>childToolToParent := (childToolToParent s)(toolUseId \<mapsto> parentToolUseId)\<rparr>))"

text \<open>
  The lookup every sub-agent handler starts with: the parent the child id is mapped to
  (a missing or empty one ends the handler), the parent's tool block, its
  \<^verbatim>\<open>subagentCalls\<close> (a missing list ends the handler) and the call with the child id.
  It gives the parent id when all four are there.
\<close>

definition subagent_target :: "string \<Rightarrow> session \<Rightarrow> string option" where
  "subagent_target toolUseId s =
     (case childToolToParent s toolUseId of
        None \<Rightarrow> None
      | Some parentToolUseId \<Rightarrow>
          if parentToolUseId = [] then None
          else (case findToolBlockById parentToolUseId s of
                  None \<Rightarrow> None
                | Some parentTool \<Rightarrow>
                    (case subagentCalls parentTool of
                       None \<Rightarrow> None
                     | Some cs \<Rightarrow> if \<exists>c \<in> set cs. sub_id c = toolUseId then Some parentToolUseId else None)))"

definition modify_call :: "string \<Rightarrow> string \<Rightarrow> (SubagentToolCall \<Rightarrow> SubagentToolCall) \<Rightarrow> session \<Rightarrow> session" where
  "modify_call parentToolUseId toolUseId g s =
     modifyToolBlock parentToolUseId
       (\<lambda>pt. pt\<lparr>subagentCalls := map_option (modify_first (\<lambda>c. sub_id c = toolUseId) g) (subagentCalls pt)\<rparr>) s"

text \<open>The sub-agent handlers return a boolean; \<open>None\<close> is \<^verbatim>\<open>false\<close> (nothing was changed)
  and \<open>Some s'\<close> is \<^verbatim>\<open>true\<close> with the state they leave.\<close>

definition handleSubagentToolResultStart :: "string \<Rightarrow> string \<Rightarrow> bool \<Rightarrow> session \<Rightarrow> session option" where
  "handleSubagentToolResultStart toolUseId c isErr s =
     (case subagent_target toolUseId s of
        None \<Rightarrow> None
      | Some p \<Rightarrow> Some (modify_call p toolUseId
          (\<lambda>sc. sc\<lparr>sub_result := Some c, sub_isError := Some isErr, sub_isLoading := Some True\<rparr>) s))"

definition handleSubagentToolResultComplete :: "string \<Rightarrow> string \<Rightarrow> bool option \<Rightarrow> session \<Rightarrow> session option" where
  "handleSubagentToolResultComplete toolUseId c isErr s =
     (case subagent_target toolUseId s of
        None \<Rightarrow> None
      | Some p \<Rightarrow> Some (modify_call p toolUseId
          (\<lambda>sc. (case isErr of
                    Some e \<Rightarrow> sc\<lparr>sub_result := Some c, sub_isError := Some e, sub_isLoading := Some False\<rparr>
                  | None \<Rightarrow> sc\<lparr>sub_result := Some c, sub_isLoading := Some False\<rparr>)) s))"

definition appendSubagentToolResultDelta :: "string \<Rightarrow> string \<Rightarrow> session \<Rightarrow> session option" where
  "appendSubagentToolResultDelta toolUseId delta s =
     (case subagent_target toolUseId s of
        None \<Rightarrow> None
      | Some p \<Rightarrow> Some (modify_call p toolUseId
          (\<lambda>sc. sc\<lparr>sub_result := Some (or_empty (sub_result sc) @ delta), sub_isLoading := Some True\<rparr>) s))"

definition finalizeSubagentToolResult :: "string \<Rightarrow> session \<Rightarrow> session option" where
  "finalizeSubagentToolResult toolUseId s =
     (case subagent_target toolUseId s of
        None \<Rightarrow> None
      | Some p \<Rightarrow> Some (modify_call p toolUseId (\<lambda>sc. sc\<lparr>sub_isLoading := Some False\<rparr>) s))"

definition getSubagentToolResult :: "string \<Rightarrow> session \<Rightarrow> string option" where
  "getSubagentToolResult toolUseId s =
     (case childToolToParent s toolUseId of
        None \<Rightarrow> None
      | Some parentToolUseId \<Rightarrow>
          if parentToolUseId = [] then None
          else (case findToolBlockById parentToolUseId s of
                  None \<Rightarrow> None
                | Some parentTool \<Rightarrow>
                    (case subagentCalls parentTool of
                       None \<Rightarrow> None
                     | Some cs \<Rightarrow>
                         (case find (\<lambda>c. sub_id c = toolUseId) cs of
                            None \<Rightarrow> None
                          | Some c \<Rightarrow> sub_result c))))"

definition setToolResult :: "string \<Rightarrow> string \<Rightarrow> bool option \<Rightarrow> session \<Rightarrow> session" where
  "setToolResult toolUseId c isErr s =
     modifyToolBlock toolUseId
       (\<lambda>t. case isErr of
               Some e \<Rightarrow> t\<lparr>result := Some c, isError := Some e\<rparr>
             | None \<Rightarrow> t\<lparr>result := Some c\<rparr>) s"

definition getToolResult :: "string \<Rightarrow> session \<Rightarrow> string option" where
  "getToolResult toolUseId s =
     (case findToolBlockById toolUseId s of None \<Rightarrow> None | Some t \<Rightarrow> result t)"

text \<open>\<^verbatim>\<open>appendToolResultContent\<close> returns the text it stored.\<close>

definition appendToolResultContent :: "string \<Rightarrow> string \<Rightarrow> bool option \<Rightarrow> session \<Rightarrow> string \<times> session" where
  "appendToolResultContent toolUseId c isErr s =
     (let existing = getToolResult toolUseId s;
          next_text = (if truthy existing then or_empty existing @ [LF] @ c else c)
      in (next_text, setToolResult toolUseId next_text isErr s))"

definition appendToolResultDelta :: "string \<Rightarrow> string \<Rightarrow> session \<Rightarrow> session" where
  "appendToolResultDelta toolUseId delta s =
     (case appendSubagentToolResultDelta toolUseId delta s of
        Some s' \<Rightarrow> s'
      | None \<Rightarrow> modifyToolBlock toolUseId (\<lambda>t. t\<lparr>result := Some (or_empty (result t) @ delta)\<rparr>) s)"

definition handleToolResultStart :: "string \<Rightarrow> string \<Rightarrow> bool \<Rightarrow> session \<Rightarrow> session" where
  "handleToolResultStart toolUseId c isErr s =
     (case handleSubagentToolResultStart toolUseId c isErr s of
        Some s' \<Rightarrow> s'
      | None \<Rightarrow> setToolResult toolUseId c (Some isErr) s)"

definition handleToolResultComplete :: "string \<Rightarrow> string \<Rightarrow> bool option \<Rightarrow> session \<Rightarrow> session" where
  "handleToolResultComplete toolUseId c isErr s =
     (case handleSubagentToolResultComplete toolUseId c isErr s of
        Some s' \<Rightarrow> s'
      | None \<Rightarrow> setToolResult toolUseId c isErr s)"

definition handleSubagentToolInputDelta :: "config \<Rightarrow> string \<Rightarrow> string \<Rightarrow> string \<Rightarrow> session \<Rightarrow> session" where
  "handleSubagentToolInputDelta cfg parentToolUseId toolId delta s =
     modify_call parentToolUseId toolId
       (\<lambda>sc. let newInputJson = or_empty (sub_inputJson sc) @ delta in
              case parsePartialJson cfg newInputJson of
                Some parsed \<Rightarrow> sc\<lparr>sub_inputJson := Some newInputJson, sub_parsedInput := Some parsed\<rparr>
              | None \<Rightarrow> sc\<lparr>sub_inputJson := Some newInputJson\<rparr>) s"

definition finalizeSubagentToolInput :: "config \<Rightarrow> string \<Rightarrow> string \<Rightarrow> session \<Rightarrow> session" where
  "finalizeSubagentToolInput cfg parentToolUseId toolId s =
     modify_call parentToolUseId toolId
       (\<lambda>sc. sc\<lparr>sub_parsedInput := reconcile_input cfg (sub_inputJson sc) (sub_parsedInput sc)\<rparr>) s"

section \<open>The runtime's messages\<close>

text \<open>
  The messages the agent runtime yields, as far as the reducer looks into them. The code
  tests the fields of untyped objects; the model has one constructor for each shape the
  tests tell apart.
\<close>

datatype delta = TextDelta string | ThinkingDelta string | InputJsonDelta string | OtherDelta

text \<open>
  The \<^verbatim>\<open>content\<close> of a tool-result block: a string, an array (its items, and its text as
  \<^verbatim>\<open>JSON.stringify(content, null, 2)\<close> prints it), another object, \<^verbatim>\<open>null\<close>,
  \<^verbatim>\<open>undefined\<close>, or a number or boolean (given by its text). An item of the array is a
  string, an object with a string \<^verbatim>\<open>text\<close>, an object of type text whose \<^verbatim>\<open>text\<close> is not
  a string (given by \<^verbatim>\<open>String(c.text)\<close>), another object, or a primitive.
\<close>

datatype content_item =
    IString string
  | ITextObject string
  | ITypedText string
  | IObject json_text
  | IPrimitive string

datatype result_content =
    CString string
  | CArray "content_item list" json_text
  | CObject json_text
  | CNull
  | CUndefined
  | CPrimitive string

datatype result_block_type =
    WebSearchToolResult
  | WebFetchToolResult
  | CodeExecutionToolResult
  | BashCodeExecutionToolResult
  | TextEditorCodeExecutionToolResult
  | McpToolResult
  | ToolResult

datatype start_block =
    StartThinking
  | StartToolUse string string "json_text option"
  | StartResult result_block_type "string option" result_content "bool option"
  | StartOther

datatype stream_event =
    ContentBlockDelta nat delta
  | ContentBlockStart nat start_block
  | ContentBlockStop nat
  | OtherEvent

datatype msg_block =
    MString string
  | MText string
  | MThinking string
  | MToolUse string string "json_text option"
  | MToolResult string result_content "bool option"
  | MOtherText string
  | MOther

datatype msg_content = NoContent | StringContent string | BlockContent "msg_block list"

datatype sdk_body =
    StreamEvent stream_event
  | AssistantMessage msg_content
  | UserMessage msg_content
  | ResultMessage
  | SystemInit string
  | OtherMessage

text \<open>
  A message of the runtime. \<open>stringified\<close> is \<^verbatim>\<open>JSON.stringify(sdkMessage)\<close>, \<open>None\<close> when
  it throws; \<open>error_field\<close> is the message's \<^verbatim>\<open>error\<close> property as
  \<^verbatim>\<open>extractAgentError\<close> renders it, \<open>None\<close> when the property is missing or falsy. The
  text of a \<open>SystemInit\<close> is the record \<^verbatim>\<open>parseSystemInitInfo\<close> builds from it.
\<close>

record sdk_message =
  parent_tool_use_id :: "string option"
  body :: sdk_body
  stringified :: "string option"
  error_field :: "string option"

definition item_text_of :: "content_item \<Rightarrow> string" where
  "item_text_of c =
     (case c of
        IString t \<Rightarrow> t
      | ITextObject t \<Rightarrow> t
      | ITypedText t \<Rightarrow> t
      | IObject j \<Rightarrow> j
      | IPrimitive t \<Rightarrow> t)"

text \<open>The three places that turn the content of a tool result into \<^verbatim>\<open>contentStr\<close>: a
  content block of the stream, a block of a user message, a block of an assistant message.\<close>

definition stream_contentStr :: "result_content \<Rightarrow> string" where
  "stream_contentStr c =
     (case c of
        CString t \<Rightarrow> t
      | CArray items j \<Rightarrow> j
      | CObject j \<Rightarrow> j
      | CNull \<Rightarrow> []
      | CUndefined \<Rightarrow> []
      | CPrimitive t \<Rightarrow> t)"

definition user_contentStr :: "result_content \<Rightarrow> string" where
  "user_contentStr c =
     (case c of
        CString t \<Rightarrow> t
      | CArray items j \<Rightarrow> j
      | CObject j \<Rightarrow> j
      | CNull \<Rightarrow> [CHR 0x22, CHR 0x22]
      | CUndefined \<Rightarrow> [CHR 0x22, CHR 0x22]
      | CPrimitive t \<Rightarrow> t)"

definition assistant_contentStr :: "result_content \<Rightarrow> string" where
  "assistant_contentStr c =
     (case c of
        CString t \<Rightarrow> t
      | CArray items j \<Rightarrow> join [LF] (map item_text_of items)
      | CObject j \<Rightarrow> j
      | CNull \<Rightarrow> ''null''
      | CUndefined \<Rightarrow> ''undefined''
      | CPrimitive t \<Rightarrow> t)"

text \<open>\<^verbatim>\<open>formatAssistantContent\<close>.\<close>

definition content_parts :: "msg_block \<Rightarrow> string list" where
  "content_parts b =
     (case b of
        MString t \<Rightarrow> [t]
      | MText t \<Rightarrow> [t]
      | MThinking t \<Rightarrow> (if trim t \<noteq> [] then [''Thinking:'' @ [LF] @ trim t] else [])
      | MToolUse i n inp \<Rightarrow> []
      | MToolResult i c e \<Rightarrow> []
      | MOtherText t \<Rightarrow> [t]
      | MOther \<Rightarrow> [])"

definition formatAssistantContent :: "msg_content \<Rightarrow> string" where
  "formatAssistantContent c =
     (case c of
        NoContent \<Rightarrow> []
      | StringContent t \<Rightarrow> t
      | BlockContent bs \<Rightarrow>
          join [LF, LF] (filter (\<lambda>p. p \<noteq> []) (map trim (concat (map content_parts bs)))))"

text \<open>The test \<^verbatim>\<open>/api error|authentication_error|unauthorized|forbidden/i\<close>.\<close>

definition fold_case :: "char \<Rightarrow> char" where
  "fold_case c = (if 97 \<le> (of_char c :: nat) \<and> (of_char c :: nat) \<le> 122 then char_of ((of_char c :: nat) - 32) else c)"

fun prefix_ci :: "string \<Rightarrow> string \<Rightarrow> bool" where
  "prefix_ci [] t = True"
| "prefix_ci (p # ps) [] = False"
| "prefix_ci (p # ps) (c # cs) = (fold_case p = fold_case c \<and> prefix_ci ps cs)"

fun contains_ci :: "string \<Rightarrow> string \<Rightarrow> bool" where
  "contains_ci pat [] = prefix_ci pat []"
| "contains_ci pat (c # cs) = (prefix_ci pat (c # cs) \<or> contains_ci pat cs)"

definition looks_like_agent_error :: "string \<Rightarrow> bool" where
  "looks_like_agent_error t =
     (contains_ci ''api error'' t \<or> contains_ci ''authentication_error'' t
      \<or> contains_ci ''unauthorized'' t \<or> contains_ci ''forbidden'' t)"

definition extractAgentErrorFromContent :: "msg_content \<Rightarrow> string option" where
  "extractAgentErrorFromContent c =
     (let t = formatAssistantContent c in
      if t = [] then None else if looks_like_agent_error t then Some t else None)"

definition extractAgentError :: "sdk_message \<Rightarrow> string option" where
  "extractAgentError m =
     (case error_field m of
        Some e \<Rightarrow> Some e
      | None \<Rightarrow> (case body m of
                   AssistantMessage c \<Rightarrow> extractAgentErrorFromContent c
                 | _ \<Rightarrow> None))"

definition parseSystemInitInfo :: "sdk_message \<Rightarrow> string option" where
  "parseSystemInitInfo m = (case body m of SystemInit info \<Rightarrow> Some info | _ \<Rightarrow> None)"

text \<open>\<^verbatim>\<open>appendLogLine\<close>; the write to the log file is left out.\<close>

definition appendLogLine :: "string \<Rightarrow> session \<Rightarrow> session" where
  "appendLogLine line s =
     (let ls = logLines s @ [line]
      in broadcast ''chat:log'' (VStr line)
           (s\<lparr>logLines := (if length ls > 2000 then tl ls else ls)\<rparr>))"

section \<open>The event loop of \<^verbatim>\<open>startStreamingSession\<close>\<close>

definition payload_obj :: "tool_payload \<Rightarrow> pval" where
  "payload_obj t =
     VObj ([(''id'', VStr (p_id t)), (''name'', VStr (p_name t)), (''input'', VRaw (p_input t))]
           @ (case p_streamIndex t of None \<Rightarrow> [] | Some i \<Rightarrow> [(''streamIndex'', VNum i)]))"

definition input_or_empty :: "json_text option \<Rightarrow> json_text" where
  "input_or_empty inp = (case inp of None \<Rightarrow> ''{}'' | Some j \<Rightarrow> j)"

definition is_true :: "bool option \<Rightarrow> bool" where
  "is_true e = (e = Some True)"

subsection \<open>The loop body of agent-session.ts\<close>

definition assistant_result_v1 :: "clock \<Rightarrow> session \<Rightarrow> msg_block \<Rightarrow> session" where
  "assistant_result_v1 now s b =
     (case b of
        MToolResult toolUseId c e \<Rightarrow>
          handleToolResult_v1 now toolUseId (assistant_contentStr c) (Some (is_true e))
            (broadcast ''chat:tool-result-complete''
               (VObj [(''toolUseId'', VStr toolUseId), (''content'', VStr (assistant_contentStr c)),
                      (''isError'', VBool (is_true e))]) s)
      | _ \<Rightarrow> s)"

definition dispatch_v1 :: "config \<Rightarrow> clock \<Rightarrow> sdk_message \<Rightarrow> session \<Rightarrow> session" where
  "dispatch_v1 cfg now m s =
     (case body m of
        StreamEvent (ContentBlockDelta index (TextDelta t)) \<Rightarrow>
          appendTextChunk now t (broadcast ''chat:message-chunk'' (VStr t) s)
      | StreamEvent (ContentBlockDelta index (ThinkingDelta t)) \<Rightarrow>
          handleThinkingChunk now index t
            (broadcast ''chat:thinking-chunk'' (VObj [(''index'', VNum index), (''delta'', VStr t)]) s)
      | StreamEvent (ContentBlockDelta index (InputJsonDelta pj)) \<Rightarrow>
          (let toolId = or_empty (streamIndexToToolId s index) in
           handleToolInputDelta cfg now index toolId pj
             (broadcast ''chat:tool-input-delta''
                (VObj [(''index'', VNum index), (''toolId'', VStr toolId), (''delta'', VStr pj)]) s))
      | StreamEvent (ContentBlockDelta index OtherDelta) \<Rightarrow> s
      | StreamEvent (ContentBlockStart index StartThinking) \<Rightarrow>
          handleThinkingStart now index
            (broadcast ''chat:thinking-start'' (VObj [(''index'', VNum index)]) s)
      | StreamEvent (ContentBlockStart index (StartToolUse i n inp)) \<Rightarrow>
          (let toolPayload = \<lparr>p_id = i, p_name = n, p_input = input_or_empty inp, p_streamIndex = Some index\<rparr> in
           handleToolUseStart now toolPayload
             (broadcast ''chat:tool-use-start'' (payload_obj toolPayload)
                (s\<lparr>streamIndexToToolId := (streamIndexToToolId s)(index \<mapsto> i)\<rparr>)))
      | StreamEvent (ContentBlockStart index (StartResult ty tid c e)) \<Rightarrow>
          (case tid of
             None \<Rightarrow> s
           | Some toolUseId \<Rightarrow>
               if ty = ToolResult \<or> stream_contentStr c = [] then s
               else handleToolResult_v1 now toolUseId (stream_contentStr c) (Some (is_true e))
                      (broadcast ''chat:tool-result-start''
                         (VObj [(''toolUseId'', VStr toolUseId), (''content'', VStr (stream_contentStr c)),
                                (''isError'', VBool (is_true e))]) s))
      | StreamEvent (ContentBlockStart index StartOther) \<Rightarrow> s
      | StreamEvent (ContentBlockStop index) \<Rightarrow>
          (let toolId = streamIndexToToolId s index;
               shown = (if truthy toolId then toolId else None) in
           handleContentBlockStop cfg now index shown
             (broadcast ''chat:content-block-stop''
                (VObj ([(''index'', VNum index)]
                       @ (case shown of None \<Rightarrow> [] | Some t \<Rightarrow> [(''toolId'', VStr t)]))) s))
      | StreamEvent OtherEvent \<Rightarrow> s
      | AssistantMessage (BlockContent bs) \<Rightarrow> foldl (assistant_result_v1 now) s bs
      | AssistantMessage _ \<Rightarrow> s
      | ResultMessage \<Rightarrow> handleMessageComplete (broadcast ''chat:message-complete'' VNull s)
      | _ \<Rightarrow> s)"

subsection \<open>The loop body of the later copy\<close>

text \<open>The parent a tool result is announced under: the one the child id is mapped to,
  and the message's own parent id when the child id is not mapped.\<close>

definition result_parent :: "sdk_message \<Rightarrow> string \<Rightarrow> session \<Rightarrow> string option" where
  "result_parent m toolUseId s =
     (case childToolToParent s toolUseId of
        Some p \<Rightarrow> Some p
      | None \<Rightarrow> parent_tool_use_id m)"

definition ensure_placeholder_if_unmapped :: "string \<Rightarrow> string \<Rightarrow> session \<Rightarrow> session" where
  "ensure_placeholder_if_unmapped p toolUseId s =
     (if childToolToParent s toolUseId = None then ensureSubagentToolPlaceholder p toolUseId s else s)"

definition text_delta_v2 :: "clock \<Rightarrow> sdk_message \<Rightarrow> string \<Rightarrow> session \<Rightarrow> session" where
  "text_delta_v2 now m t s =
     (if truthy (parent_tool_use_id m) then
        (let toolUseId = or_empty (parent_tool_use_id m);
             parentToolUseId = childToolToParent s toolUseId
         in appendToolResultDelta toolUseId t
              (if truthy parentToolUseId
               then broadcast ''chat:subagent-tool-result-delta''
                      (VObj [(''parentToolUseId'', VStr (or_empty parentToolUseId)),
                             (''toolUseId'', VStr toolUseId), (''delta'', VStr t)]) s
               else broadcast ''chat:tool-result-delta''
                      (VObj [(''toolUseId'', VStr toolUseId), (''delta'', VStr t)]) s))
      else appendTextChunk now t (broadcast ''chat:message-chunk'' (VStr t) s))"

definition input_delta_v2 :: "config \<Rightarrow> clock \<Rightarrow> sdk_message \<Rightarrow> nat \<Rightarrow> string \<Rightarrow> session \<Rightarrow> session" where
  "input_delta_v2 cfg now m index pj s =
     (let toolId = or_empty (streamIndexToToolId s index) in
      if truthy (parent_tool_use_id m) then
        handleSubagentToolInputDelta cfg (or_empty (parent_tool_use_id m)) toolId pj
          (broadcast ''chat:subagent-tool-input-delta''
             (VObj [(''parentToolUseId'', VStr (or_empty (parent_tool_use_id m))),
                    (''toolId'', VStr toolId), (''delta'', VStr pj)]) s)
      else
        handleToolInputDelta cfg now index toolId pj
          (broadcast ''chat:tool-input-delta''
             (VObj [(''index'', VNum index), (''toolId'', VStr toolId), (''delta'', VStr pj)]) s))"

definition tool_use_start_v2 :: "clock \<Rightarrow> sdk_message \<Rightarrow> nat \<Rightarrow> string \<Rightarrow> string \<Rightarrow> json_text option \<Rightarrow> session \<Rightarrow> session" where
  "tool_use_start_v2 now m index i n inp s =
     (let toolPayload = \<lparr>p_id = i, p_name = n, p_input = input_or_empty inp, p_streamIndex = Some index\<rparr>;
          s1 = s\<lparr>streamIndexToToolId := (streamIndexToToolId s)(index \<mapsto> i)\<rparr>
      in if truthy (parent_tool_use_id m) then
           handleSubagentToolUseStart (or_empty (parent_tool_use_id m)) toolPayload
             (broadcast ''chat:subagent-tool-use''
                (VObj [(''parentToolUseId'', VStr (or_empty (parent_tool_use_id m))),
                       (''tool'', payload_obj toolPayload)]) s1)
         else handleToolUseStart now toolPayload
                (broadcast ''chat:tool-use-start'' (payload_obj toolPayload) s1))"

definition result_start_v2 :: "sdk_message \<Rightarrow> nat \<Rightarrow> string \<Rightarrow> result_content \<Rightarrow> bool option \<Rightarrow> session \<Rightarrow> session" where
  "result_start_v2 m index toolUseId c e s =
     (let contentStr = stream_contentStr c;
          s1 = s\<lparr>toolResultIndexToId := (toolResultIndexToId s)(index \<mapsto> toolUseId)\<rparr>
      in if contentStr = [] then s1
         else
           (let parentToolUseId = result_parent m toolUseId s1 in
            handleToolResultStart toolUseId contentStr (is_true e)
              (if truthy parentToolUseId
               then broadcast ''chat:subagent-tool-result-start''
                      (VObj [(''parentToolUseId'', VStr (or_empty parentToolUseId)),
                             (''toolUseId'', VStr toolUseId), (''content'', VStr contentStr),
                             (''isError'', VBool (is_true e))])
                      (ensure_placeholder_if_unmapped (or_empty parentToolUseId) toolUseId s1)
               else broadcast ''chat:tool-result-start''
                      (VObj [(''toolUseId'', VStr toolUseId), (''content'', VStr contentStr),
                             (''isError'', VBool (is_true e))]) s1)))"

definition subagent_result_stop :: "nat \<Rightarrow> session \<Rightarrow> session" where
  "subagent_result_stop index s =
     (let toolResultId = toolResultIndexToId s index in
      if truthy toolResultId then
        (let s1 = s\<lparr>toolResultIndexToId := (toolResultIndexToId s)(index := None)\<rparr> in
         case finalizeSubagentToolResult (or_empty toolResultId) s1 of
           None \<Rightarrow> s1
         | Some s2 \<Rightarrow>
             (let res = or_empty (getSubagentToolResult (or_empty toolResultId) s2);
                  parentToolUseId = childToolToParent s2 (or_empty toolResultId)
              in if truthy parentToolUseId
                 then broadcast ''chat:subagent-tool-result-complete''
                        (VObj [(''parentToolUseId'', VStr (or_empty parentToolUseId)),
                               (''toolUseId'', VStr (or_empty toolResultId)), (''content'', VStr res)]) s2
                 else s2))
      else s)"

definition block_stop_v2 :: "config \<Rightarrow> clock \<Rightarrow> sdk_message \<Rightarrow> nat \<Rightarrow> session \<Rightarrow> session" where
  "block_stop_v2 cfg now m index s =
     (let toolId = streamIndexToToolId s index in
      if truthy (parent_tool_use_id m) then
        subagent_result_stop index
          (if truthy toolId
           then finalizeSubagentToolInput cfg (or_empty (parent_tool_use_id m)) (or_empty toolId) s
           else s)
      else
        (let shown = (if truthy toolId then toolId else None) in
         handleContentBlockStop cfg now index shown
           (broadcast ''chat:content-block-stop''
              (VObj ([(''index'', VNum index)]
                     @ (case shown of None \<Rightarrow> [] | Some t \<Rightarrow> [(''toolId'', VStr t)]))) s)))"

text \<open>One block of a user message that has a parent: a tool result is a completed result.\<close>

definition user_block_v2 :: "sdk_message \<Rightarrow> session \<Rightarrow> msg_block \<Rightarrow> session" where
  "user_block_v2 m s b =
     (case b of
        MToolResult toolUseId c e \<Rightarrow>
          (let contentStr = user_contentStr c;
               parentToolUseId = result_parent m toolUseId s
           in handleToolResultComplete toolUseId contentStr None
                (if truthy parentToolUseId
                 then broadcast ''chat:subagent-tool-result-complete''
                        (VObj [(''parentToolUseId'', VStr (or_empty parentToolUseId)),
                               (''toolUseId'', VStr toolUseId), (''content'', VStr contentStr)])
                        (ensure_placeholder_if_unmapped (or_empty parentToolUseId) toolUseId s)
                 else broadcast ''chat:tool-result-complete''
                        (VObj [(''toolUseId'', VStr toolUseId), (''content'', VStr contentStr)]) s))
      | _ \<Rightarrow> s)"

text \<open>The three passes over an assistant message: the tool uses of a sub-agent, the text
  of a sub-agent (appended to the result of the parent tool), the tool results.\<close>

definition assistant_tool_use_v2 :: "string \<Rightarrow> session \<Rightarrow> msg_block \<Rightarrow> session" where
  "assistant_tool_use_v2 parentToolUseId s b =
     (case b of
        MToolUse i n inp \<Rightarrow>
          (let p = \<lparr>p_id = i, p_name = n, p_input = input_or_empty inp, p_streamIndex = None\<rparr> in
           handleSubagentToolUseStart parentToolUseId p
             (broadcast ''chat:subagent-tool-use''
                (VObj [(''parentToolUseId'', VStr parentToolUseId), (''tool'', payload_obj p)]) s))
      | _ \<Rightarrow> s)"

definition assistant_text_v2 :: "string \<Rightarrow> msg_content \<Rightarrow> session \<Rightarrow> session" where
  "assistant_text_v2 parentToolUseId c s =
     (let t = formatAssistantContent c in
      if t = [] then s
      else (case appendToolResultContent parentToolUseId t None s of
              (next_text, s1) \<Rightarrow>
                broadcast ''chat:tool-result-complete''
                  (VObj [(''toolUseId'', VStr parentToolUseId), (''content'', VStr next_text)]) s1))"

definition assistant_result_v2 :: "sdk_message \<Rightarrow> session \<Rightarrow> msg_block \<Rightarrow> session" where
  "assistant_result_v2 m s b =
     (case b of
        MToolResult toolUseId c e \<Rightarrow>
          (let contentStr = assistant_contentStr c;
               parentToolUseId = result_parent m toolUseId s
           in handleToolResultComplete toolUseId contentStr (Some (is_true e))
                (if truthy parentToolUseId
                 then broadcast ''chat:subagent-tool-result-complete''
                        (VObj [(''parentToolUseId'', VStr (or_empty parentToolUseId)),
                               (''toolUseId'', VStr toolUseId), (''content'', VStr contentStr),
                               (''isError'', VBool (is_true e))])
                        (ensure_placeholder_if_unmapped (or_empty parentToolUseId) toolUseId s)
                 else broadcast ''chat:tool-result-complete''
                        (VObj [(''toolUseId'', VStr toolUseId), (''content'', VStr contentStr),
                               (''isError'', VBool (is_true e))]) s))
      | _ \<Rightarrow> s)"

definition blocks_of_content :: "msg_content \<Rightarrow> msg_block list" where
  "blocks_of_content c = (case c of BlockContent bs \<Rightarrow> bs | _ \<Rightarrow> [])"

definition assistant_v2 :: "sdk_message \<Rightarrow> msg_content \<Rightarrow> session \<Rightarrow> session" where
  "assistant_v2 m c s =
     (let s1 = (if truthy (parent_tool_use_id m)
                then foldl (assistant_tool_use_v2 (or_empty (parent_tool_use_id m))) s (blocks_of_content c)
                else s);
          s2 = (if truthy (parent_tool_use_id m)
                then assistant_text_v2 (or_empty (parent_tool_use_id m)) c s1
                else s1)
      in foldl (assistant_result_v2 m) s2 (blocks_of_content c))"

definition dispatch_v2 :: "config \<Rightarrow> clock \<Rightarrow> sdk_message \<Rightarrow> session \<Rightarrow> session" where
  "dispatch_v2 cfg now m s =
     (case body m of
        StreamEvent (ContentBlockDelta index (TextDelta t)) \<Rightarrow> text_delta_v2 now m t s
      | StreamEvent (ContentBlockDelta index (ThinkingDelta t)) \<Rightarrow>
          handleThinkingChunk now index t
            (broadcast ''chat:thinking-chunk'' (VObj [(''index'', VNum index), (''delta'', VStr t)]) s)
      | StreamEvent (ContentBlockDelta index (InputJsonDelta pj)) \<Rightarrow> input_delta_v2 cfg now m index pj s
      | StreamEvent (ContentBlockDelta index OtherDelta) \<Rightarrow> s
      | StreamEvent (ContentBlockStart index StartThinking) \<Rightarrow>
          handleThinkingStart now index
            (broadcast ''chat:thinking-start'' (VObj [(''index'', VNum index)]) s)
      | StreamEvent (ContentBlockStart index (StartToolUse i n inp)) \<Rightarrow> tool_use_start_v2 now m index i n inp s
      | StreamEvent (ContentBlockStart index (StartResult ty tid c e)) \<Rightarrow>
          (case tid of None \<Rightarrow> s | Some toolUseId \<Rightarrow> result_start_v2 m index toolUseId c e s)
      | StreamEvent (ContentBlockStart index StartOther) \<Rightarrow> s
      | StreamEvent (ContentBlockStop index) \<Rightarrow> block_stop_v2 cfg now m index s
      | StreamEvent OtherEvent \<Rightarrow> s
      | UserMessage c \<Rightarrow>
          (if truthy (parent_tool_use_id m) then foldl (user_block_v2 m) s (blocks_of_content c) else s)
      | AssistantMessage c \<Rightarrow> assistant_v2 m c s
      | ResultMessage \<Rightarrow> handleMessageComplete (broadcast ''chat:message-complete'' VNull s)
      | _ \<Rightarrow> s)"

text \<open>What the later copy does with every message before it looks at its type: the log
  line, the system-init record, the agent error.\<close>

definition preamble_v2 :: "clock \<Rightarrow> sdk_message \<Rightarrow> session \<Rightarrow> session" where
  "preamble_v2 now m s =
     (let s1 = (case stringified m of
                  None \<Rightarrow> s
                | Some j \<Rightarrow> appendLogLine (iso now @ '' '' @ j) s);
          s2 = (case parseSystemInitInfo m of
                  None \<Rightarrow> s1
                | Some info \<Rightarrow> broadcast ''chat:system-init'' (VObj [(''info'', VRaw info)])
                               (s1\<lparr>systemInitInfo := Some info\<rparr>))
      in (case extractAgentError m of
            None \<Rightarrow> s2
          | Some e \<Rightarrow> if e = [] then s2
                      else broadcast ''chat:agent-error'' (VObj [(''message'', VStr e)]) s2))"

text \<open>One turn of the \<^verbatim>\<open>for await\<close> loop: the state it leaves, and whether the loop
  goes on or breaks (on \<^verbatim>\<open>shouldAbortSession\<close>).\<close>

datatype loop_result = Continue session | Break session

definition loop_body :: "config \<Rightarrow> clock \<Rightarrow> sdk_message \<Rightarrow> session \<Rightarrow> loop_result" where
  "loop_body cfg now m s =
     (case version cfg of
        AgentSessionTs \<Rightarrow>
          (if shouldAbortSession s then Break s else Continue (dispatch_v1 cfg now m s))
      | IndexTs \<Rightarrow>
          (let s1 = preamble_v2 now m s in
           if shouldAbortSession s1 then Break s1 else Continue (dispatch_v2 cfg now m s1)))"

section \<open>The session: enqueue, start, interrupt, termination\<close>

text \<open>The state of the module when it has been loaded.\<close>

definition initial_session :: session where
  "initial_session =
     \<lparr>agentDir = [], hasInitialPrompt = False, sessionState = Idle, querySession = None,
      isProcessing = False, shouldAbortSession = False, sessionTerminationPromise = None,
      isInterruptingResponse = False, isStreamingMessage = False, messages = [],
      streamIndexToToolId = Map.empty, messageSequence = 0, messageQueue = [],
      toolResultIndexToId = Map.empty, childToolToParent = Map.empty, sessionId = [],
      logLines = [], systemInitInfo = None, broadcasts = [], liveRuns = [], runSeq = 0,
      startWaiters = [], promiseSeq = 0, resolvedPromises = [], interruptCalls = 0,
      interruptsInFlight = 0, callSeq = 0, feeds = Map.empty, resolvedCalls = []\<rparr>"

definition isSessionActive :: "session \<Rightarrow> bool" where
  "isSessionActive s = (isProcessing s \<or> querySession s \<noteq> None)"

record agent_state =
  st_agentDir :: string
  st_sessionState :: SessionState
  st_hasInitialPrompt :: bool

definition getAgentState :: "session \<Rightarrow> agent_state" where
  "getAgentState s =
     \<lparr>st_agentDir = agentDir s, st_sessionState = sessionState s,
      st_hasInitialPrompt = hasInitialPrompt s\<rparr>"

definition getMessages :: "session \<Rightarrow> MessageWire list" where
  "getMessages s = messages s"

text \<open>
  \<^verbatim>\<open>startStreamingSession\<close> after its \<^verbatim>\<open>await\<close>: the guard, and the statements up to
  \<^verbatim>\<open>querySession = query(...)\<close>, which run without a suspension. The run is entered in
  \<open>liveRuns\<close> with its handle and the termination promise it will resolve; it stays there
  until its \<^verbatim>\<open>finally\<close> block has run. \<^verbatim>\<open>query\<close> is given a new message generator, which
  has not started; the generators of earlier runs stay as they are.
\<close>

definition startStreamingSession_guarded :: "session \<Rightarrow> session" where
  "startStreamingSession_guarded s =
     (if isProcessing s \<or> querySession s \<noteq> None then s
      else
        (let s1 = setSessionState Running
                    (s\<lparr>shouldAbortSession := False, isProcessing := True,
                       streamIndexToToolId := Map.empty\<rparr>)
         in s1\<lparr>sessionTerminationPromise := Some (promiseSeq s1),
               promiseSeq := Suc (promiseSeq s1),
               querySession := Some (runSeq s1),
               liveRuns := liveRuns s1 @ [(runSeq s1, promiseSeq s1)],
               runSeq := Suc (runSeq s1),
               feeds := (feeds s1)(runSeq s1 \<mapsto> AtStart)\<rparr>))"

text \<open>
  The call of \<^verbatim>\<open>startStreamingSession\<close> up to its first suspension: with a termination
  promise stored it awaits that promise (and is entered in \<open>startWaiters\<close>, also when the
  promise is already resolved: an \<^verbatim>\<open>await\<close> always gives up control), without one it goes
  on to the guard at once.
\<close>

definition startStreamingSession :: "session \<Rightarrow> session" where
  "startStreamingSession s =
     (case sessionTerminationPromise s of
        Some p \<Rightarrow> s\<lparr>startWaiters := startWaiters s @ [p]\<rparr>
      | None \<Rightarrow> startStreamingSession_guarded s)"

text \<open>
  \<^verbatim>\<open>enqueueUserMessage\<close> up to its \<^verbatim>\<open>await\<close>. The call returns at once for a text that is
  empty after trimming; otherwise it is left waiting for the feed to take its message. The
  later copy sets \<^verbatim>\<open>hasInitialPrompt\<close>; agent-session.ts does not.
\<close>

datatype enqueue_outcome = ReturnedAtOnce | AwaitingFeed nat

definition enqueueUserMessage :: "version \<Rightarrow> clock \<Rightarrow> string \<Rightarrow> session \<Rightarrow> enqueue_outcome \<times> session" where
  "enqueueUserMessage v now t s =
     (let trimmed = trim t in
      if trimmed = [] then (ReturnedAtOnce, s)
      else
        (let s0 = (case v of AgentSessionTs \<Rightarrow> s | IndexTs \<Rightarrow> s\<lparr>hasInitialPrompt := True\<rparr>);
             s1 = setSessionState Running s0;
             userMessage = \<lparr>msg_id = String_nat (messageSequence s1), role = User,
                             content = Plain trimmed, timestamp = iso now\<rparr>;
             s2 = broadcast ''chat:message-replay'' (VObj [(''message'', VMsg userMessage)])
                    (s1\<lparr>messages := messages s1 @ [userMessage],
                        messageSequence := Suc (messageSequence s1)\<rparr>);
             s3 = (if \<not> isSessionActive s2 then startStreamingSession s2 else s2)
         in (AwaitingFeed (callSeq s3),
             s3\<lparr>messageQueue := messageQueue s3 @ [\<lparr>item_text = trimmed, item_call = callSeq s3\<rparr>],
                callSeq := Suc (callSeq s3)\<rparr>)))"

text \<open>\<^verbatim>\<open>initializeAgent\<close>; the later copy also clears the transcript, the queue and the
  parent map and opens a new log. \<open>uuid\<close> is the value \<^verbatim>\<open>randomUUID()\<close> gives.\<close>

definition initializeAgent :: "version \<Rightarrow> clock \<Rightarrow> string \<Rightarrow> string \<Rightarrow> string option \<Rightarrow> session \<Rightarrow> session" where
  "initializeAgent v now uuid nextAgentDir initialPrompt s =
     (let has = (case initialPrompt of None \<Rightarrow> False | Some p \<Rightarrow> p \<noteq> [] \<and> trim p \<noteq> []);
          s1 = (case v of
                  AgentSessionTs \<Rightarrow>
                    s\<lparr>agentDir := nextAgentDir, hasInitialPrompt := has, messageSequence := 0\<rparr>
                | IndexTs \<Rightarrow>
                    s\<lparr>agentDir := nextAgentDir, hasInitialPrompt := has, systemInitInfo := None,
                      messageSequence := 0, sessionId := uuid, messages := [], messageQueue := [],
                      childToolToParent := Map.empty, logLines := []\<rparr>)
      in if has then snd (enqueueUserMessage v now (trim (or_empty initialPrompt)) s1) else s1)"

text \<open>
  \<^verbatim>\<open>interruptCurrentResponse\<close> up to its \<^verbatim>\<open>await\<close>: it returns \<^verbatim>\<open>false\<close> without a
  handle, \<^verbatim>\<open>true\<close> while another interrupt is in flight, and otherwise calls the runtime's
  \<^verbatim>\<open>interrupt()\<close> and waits for it.
\<close>

datatype interrupt_outcome = Returned bool | AwaitingRuntime

definition interruptCurrentResponse :: "session \<Rightarrow> interrupt_outcome \<times> session" where
  "interruptCurrentResponse s =
     (if querySession s = None then (Returned False, s)
      else if isInterruptingResponse s then (Returned True, s)
      else (AwaitingRuntime,
            s\<lparr>isInterruptingResponse := True,
              interruptCalls := Suc (interruptCalls s),
              interruptsInFlight := Suc (interruptsInFlight s)\<rparr>))"

text \<open>The rest of \<^verbatim>\<open>interruptCurrentResponse\<close> when the runtime's \<^verbatim>\<open>interrupt()\<close> has
  resolved (it then returns \<^verbatim>\<open>true\<close>), and when it has rejected (the \<^verbatim>\<open>finally\<close> block
  only; the rejection goes to the caller).\<close>

definition interrupt_resolved :: "clock \<Rightarrow> session \<Rightarrow> session" where
  "interrupt_resolved now s =
     (let s1 = handleMessageStopped now (broadcast ''chat:message-stopped'' VNull s)
      in s1\<lparr>isInterruptingResponse := False, interruptsInFlight := interruptsInFlight s1 - 1\<rparr>)"

definition interrupt_rejected :: "session \<Rightarrow> session" where
  "interrupt_rejected s =
     s\<lparr>isInterruptingResponse := False, interruptsInFlight := interruptsInFlight s - 1\<rparr>"

text \<open>What the event stream throws: an \<^verbatim>\<open>Error\<close> with its message, or another value.\<close>

datatype thrown = ErrorInstance string | OtherThrown

definition error_message_of :: "thrown \<Rightarrow> string" where
  "error_message_of e = (case e of ErrorInstance msg \<Rightarrow> msg | OtherThrown \<Rightarrow> ''Unknown error occurred'')"

text \<open>The \<^verbatim>\<open>catch\<close> block and the \<^verbatim>\<open>finally\<close> block of \<^verbatim>\<open>startStreamingSession\<close>, for
  the run with handle \<open>r\<close> and termination promise \<open>p\<close>.\<close>

definition run_catch :: "clock \<Rightarrow> thrown \<Rightarrow> session \<Rightarrow> session" where
  "run_catch now e s =
     setSessionState Error
       (handleMessageError now (error_message_of e)
          (broadcast ''chat:message-error'' (VStr (error_message_of e)) s))"

definition run_finally :: "nat \<times> nat \<Rightarrow> session \<Rightarrow> session" where
  "run_finally rp s =
     (let s1 = s\<lparr>isProcessing := False, querySession := None\<rparr>;
          s2 = (if sessionState s1 \<noteq> Error then setSessionState Idle s1 else s1)
      in s2\<lparr>resolvedPromises := resolvedPromises s2 @ [snd rp],
            liveRuns := remove1 rp (liveRuns s2)\<rparr>)"

text \<open>
  \<^verbatim>\<open>messageGenerator\<close>. Every run has a generator of its own; all of them take from the one
  \<^verbatim>\<open>messageQueue\<close>. \<open>checkQueue\<close> is the function of that name inside the promise: it
  resolves the promise on abort or when the queue holds an item, and sets a timer otherwise.
  \<open>generator_loop\<close> is the loop from its top to the \<^verbatim>\<open>await\<close>.
\<close>

definition checkQueue :: "session \<Rightarrow> feed_state" where
  "checkQueue s =
     (if shouldAbortSession s then Woken
      else if messageQueue s \<noteq> [] then Woken
      else Polling)"

definition generator_loop :: "session \<Rightarrow> feed_state" where
  "generator_loop s = (if shouldAbortSession s then Finished else checkQueue s)"

text \<open>
  The runtime asks the generator of run \<open>g\<close> for the next message (\<^verbatim>\<open>next()\<close>). A generator
  suspended at a \<^verbatim>\<open>yield\<close> first runs \<^verbatim>\<open>item.resolve()\<close>, which settles the enqueue call
  the item belongs to, and then goes round the loop; a finished generator stays finished.
  A request made while an earlier one is still pending is not modelled (\<open>None\<close>).
\<close>

definition messageGenerator_next :: "nat \<Rightarrow> session \<Rightarrow> session option" where
  "messageGenerator_next g s =
     (case feeds s g of
        Some AtStart \<Rightarrow> Some (s\<lparr>feeds := (feeds s)(g \<mapsto> generator_loop s)\<rparr>)
      | Some (AtYield item sid) \<Rightarrow>
          Some (s\<lparr>resolvedCalls := resolvedCalls s @ [item_call item],
                  feeds := (feeds s)(g \<mapsto> generator_loop s)\<rparr>)
      | Some Finished \<Rightarrow> Some s
      | _ \<Rightarrow> None)"

text \<open>The timer of a waiting generator fires: \<^verbatim>\<open>checkQueue\<close> runs again.\<close>

definition messageGenerator_timer :: "nat \<Rightarrow> session \<Rightarrow> session option" where
  "messageGenerator_timer g s =
     (case feeds s g of
        Some Polling \<Rightarrow> Some (s\<lparr>feeds := (feeds s)(g \<mapsto> checkQueue s)\<rparr>)
      | _ \<Rightarrow> None)"

text \<open>
  The generator goes on after its \<^verbatim>\<open>await\<close>: it returns on abort, and otherwise shifts the
  queue; with an item it yields the item's message and the session id, without one
  (another generator has taken it) it goes round the loop again.
\<close>

definition messageGenerator_resume :: "nat \<Rightarrow> session \<Rightarrow> session option" where
  "messageGenerator_resume g s =
     (case feeds s g of
        Some Woken \<Rightarrow>
          (if shouldAbortSession s then Some (s\<lparr>feeds := (feeds s)(g \<mapsto> Finished)\<rparr>)
           else (case messageQueue s of
                   [] \<Rightarrow> Some (s\<lparr>feeds := (feeds s)(g \<mapsto> generator_loop s)\<rparr>)
                 | item # rest \<Rightarrow>
                     Some (s\<lparr>messageQueue := rest,
                             feeds := (feeds s)(g \<mapsto> AtYield item (sessionId s))\<rparr>)))
      | _ \<Rightarrow> None)"

subsection \<open>The interleavings\<close>

text \<open>
  JavaScript runs each function without interruption up to its next \<^verbatim>\<open>await\<close>. An action
  is one such uninterrupted piece: a call from outside (enqueue, interrupt), or the
  continuation of a suspended function. \<open>exec\<close> gives \<open>None\<close> for an action that cannot
  happen in the state (there is no such run, waiter, generator or interrupt in flight, or
  the promise awaited is not resolved). The runtime is not part of the code: it may ask any
  generator it was given for the next message at any time, also one of a run that has
  ended, and it may never ask.
\<close>

datatype action =
    Enqueue clock string
  | ResumeStart nat
  | RuntimeMessage "nat \<times> nat" clock sdk_message
  | RuntimeEnds "nat \<times> nat"
  | RuntimeThrows "nat \<times> nat" clock thrown
  | Interrupt
  | InterruptResolves clock
  | InterruptRejects
  | FeedNext nat
  | FeedTimer nat
  | FeedResume nat

definition exec :: "config \<Rightarrow> action \<Rightarrow> session \<Rightarrow> session option" where
  "exec cfg a s =
     (case a of
        Enqueue now t \<Rightarrow> Some (snd (enqueueUserMessage (version cfg) now t s))
      | ResumeStart p \<Rightarrow>
          (if p \<in> set (startWaiters s) \<and> p \<in> set (resolvedPromises s)
           then Some (startStreamingSession_guarded (s\<lparr>startWaiters := remove1 p (startWaiters s)\<rparr>))
           else None)
      | RuntimeMessage rp now m \<Rightarrow>
          (if rp \<in> set (liveRuns s)
           then (case loop_body cfg now m s of
                   Continue s' \<Rightarrow> Some s'
                 | Break s' \<Rightarrow> Some (run_finally rp s'))
           else None)
      | RuntimeEnds rp \<Rightarrow>
          (if rp \<in> set (liveRuns s) then Some (run_finally rp s) else None)
      | RuntimeThrows rp now e \<Rightarrow>
          (if rp \<in> set (liveRuns s) then Some (run_finally rp (run_catch now e s)) else None)
      | Interrupt \<Rightarrow> Some (snd (interruptCurrentResponse s))
      | InterruptResolves now \<Rightarrow>
          (if 0 < interruptsInFlight s then Some (interrupt_resolved now s) else None)
      | InterruptRejects \<Rightarrow>
          (if 0 < interruptsInFlight s then Some (interrupt_rejected s) else None)
      | FeedNext g \<Rightarrow> messageGenerator_next g s
      | FeedTimer g \<Rightarrow> messageGenerator_timer g s
      | FeedResume g \<Rightarrow> messageGenerator_resume g s)"

fun exec_all :: "config \<Rightarrow> action list \<Rightarrow> session \<Rightarrow> session option" where
  "exec_all cfg [] s = Some s"
| "exec_all cfg (a # as) s = (case exec cfg a s of None \<Rightarrow> None | Some s' \<Rightarrow> exec_all cfg as s')"

subsection \<open>The HTTP commands of index.ts\<close>

text \<open>The body of a request to \<^verbatim>\<open>/chat/send\<close>: not JSON, or a payload with an optional
  \<^verbatim>\<open>text\<close>. The answer is a response, or is pending on the enqueue call, after whose
  resolution the handler answers 200 with \<^verbatim>\<open>{success: true}\<close>.\<close>

datatype send_body = InvalidJson | Payload "string option"

datatype http_answer = Response nat bool "string option" | PendingOnCall nat

definition chat_send :: "version \<Rightarrow> clock \<Rightarrow> send_body \<Rightarrow> session \<Rightarrow> http_answer \<times> session" where
  "chat_send v now b s =
     (case b of
        InvalidJson \<Rightarrow> (Response 400 False (Some ''Invalid JSON payload.''), s)
      | Payload t \<Rightarrow>
          (let txt = trim (or_empty t) in
           if txt = [] then (Response 400 False (Some ''Message cannot be empty.''), s)
           else (case enqueueUserMessage v now txt s of
                   (ReturnedAtOnce, s') \<Rightarrow> (Response 200 True None, s')
                 | (AwaitingFeed c, s') \<Rightarrow> (PendingOnCall c, s'))))"

section \<open>Notions used to state the properties\<close>

text \<open>The variables that no handler of the event loop writes: the handlers change the
  transcript, the maps from stream indices and child ids, the log and the broadcasts only.\<close>

definition ctl :: "session \<Rightarrow>
    ((string \<times> bool \<times> nat option \<times> bool \<times> bool \<times> nat option \<times> bool)
     \<times> (queue_item list \<times> string \<times> (nat \<times> nat) list \<times> nat \<times> nat list \<times> nat)
     \<times> (nat list \<times> nat \<times> nat \<times> nat \<times> (nat \<rightharpoonup> feed_state) \<times> nat list))" where
  "ctl s =
     ((agentDir s, hasInitialPrompt s, querySession s, isProcessing s, shouldAbortSession s,
       sessionTerminationPromise s, isInterruptingResponse s),
      (messageQueue s, sessionId s, liveRuns s, runSeq s, startWaiters s, promiseSeq s),
      (resolvedPromises s, interruptCalls s, interruptsInFlight s, callSeq s, feeds s,
       resolvedCalls s))"

text \<open>The open assistant message is the one \<^verbatim>\<open>ensureAssistantMessage\<close> would return
  without pushing; its accumulated text is its content when that is a string, and the text
  of its trailing text block when it is a block array.\<close>

definition has_open_message :: "session \<Rightarrow> bool" where
  "has_open_message s =
     (messages s \<noteq> [] \<and> role (last (messages s)) = Assistant \<and> isStreamingMessage s)"

definition accumulated_text :: "session \<Rightarrow> string" where
  "accumulated_text s =
     (if has_open_message s then
        (case content (last (messages s)) of
           Plain t \<Rightarrow> t
         | Blocks bs \<Rightarrow>
             if bs \<noteq> [] \<and> btype (last bs) = TextBlock then or_empty (block_text (last bs)) else [])
      else [])"

text \<open>The contents of the messages of the transcript, in order.\<close>

definition contents :: "session \<Rightarrow> Content list" where
  "contents s = map content (messages s)"

text \<open>Text deltas applied in arrival order, each at the clock reading of its arrival.\<close>

fun apply_chunks :: "(clock \<times> string) list \<Rightarrow> session \<Rightarrow> session" where
  "apply_chunks [] s = s"
| "apply_chunks (c # cs) s = apply_chunks cs (appendTextChunk (fst c) (snd c) s)"

text \<open>
  At most one run is live, and the flags agree with it: \<^verbatim>\<open>isProcessing\<close> is set exactly
  while a run is live, a handle is stored only while a run is live and is the handle of
  that run, the termination promise of a live run is not resolved, and promise numbers
  are not reused.
\<close>

definition single_runtime :: "session \<Rightarrow> bool" where
  "single_runtime s =
     (length (liveRuns s) \<le> 1
      \<and> (isProcessing s = (liveRuns s \<noteq> []))
      \<and> set_option (querySession s) \<subseteq> set (map fst (liveRuns s))
      \<and> list_all (\<lambda>rp. snd rp \<notin> set (resolvedPromises s) \<and> snd rp < promiseSeq s) (liveRuns s)
      \<and> list_all (\<lambda>p. p < promiseSeq s) (resolvedPromises s))"

text \<open>
  A generator the runtime can ask for the next message (it has not started, or it is
  suspended at a \<^verbatim>\<open>yield\<close>), the call whose item it holds at its \<^verbatim>\<open>yield\<close>, and a runtime
  that keeps asking generator \<open>g\<close>: \<open>n\<close> rounds of asking and of the generator going on
  after its \<^verbatim>\<open>await\<close>, and one more request.
\<close>

definition awaiting_pull :: "feed_state option \<Rightarrow> bool" where
  "awaiting_pull f = (case f of Some AtStart \<Rightarrow> True | Some (AtYield item sid) \<Rightarrow> True | _ \<Rightarrow> False)"

definition pending_calls :: "feed_state option \<Rightarrow> nat list" where
  "pending_calls f = (case f of Some (AtYield item sid) \<Rightarrow> [item_call item] | _ \<Rightarrow> [])"

definition runtime_pulls :: "nat \<Rightarrow> nat \<Rightarrow> action list" where
  "runtime_pulls g n = concat (replicate n [FeedNext g, FeedResume g]) @ [FeedNext g]"

text \<open>Messages of the runtime applied by the later copy's loop body in arrival order.\<close>

fun apply_messages :: "config \<Rightarrow> (clock \<times> sdk_message) list \<Rightarrow> session \<Rightarrow> session" where
  "apply_messages cfg [] s = s"
| "apply_messages cfg (m # rest) s = apply_messages cfg rest (dispatch_v2 cfg (fst m) (snd m) s)"

text \<open>The sub-agent entry a child id resolves to: the entry with that id under the parent
  the id is mapped to. It is what every sub-agent handler looks up before it writes.\<close>

definition subagent_call :: "string \<Rightarrow> session \<Rightarrow> SubagentToolCall option" where
  "subagent_call toolUseId s =
     (case childToolToParent s toolUseId of
        None \<Rightarrow> None
      | Some parentToolUseId \<Rightarrow>
          if parentToolUseId = [] then None
          else (case findToolBlockById parentToolUseId s of
                  None \<Rightarrow> None
                | Some parentTool \<Rightarrow>
                    (case subagentCalls parentTool of
                       None \<Rightarrow> None
                     | Some cs \<Rightarrow> find (\<lambda>c. sub_id c = toolUseId) cs)))"

text \<open>
  The entry of a child id in a tool block. What the sub-agent handlers can see of a child
  id is the parent it is mapped to and, for every tool id, the child's entry in the tool
  block found for that id; two states have the same view of a child when these agree.
\<close>

definition entry :: "string \<Rightarrow> ToolUseState \<Rightarrow> SubagentToolCall option" where
  "entry c t = find (\<lambda>x. sub_id x = c) (calls_of t)"

definition same_view :: "string \<Rightarrow> session \<Rightarrow> session \<Rightarrow> bool" where
  "same_view c s s' =
     (childToolToParent s' c = childToolToParent s c
      \<and> (\<forall>q. map_option (entry c) (findToolBlockById q s') = map_option (entry c) (findToolBlockById q s)))"

text \<open>
  The tool-result blocks of a message for a tool id, the last of them (its content and
  error flag), and a list of blocks in which every tool result is for an id that is not
  mapped to a parent and has no tool block of its own.
\<close>

definition is_result_for :: "string \<Rightarrow> msg_block \<Rightarrow> bool" where
  "is_result_for c b = (case b of MToolResult i rc e \<Rightarrow> i = c | _ \<Rightarrow> False)"

fun last_result_for :: "string \<Rightarrow> msg_block list \<Rightarrow> (result_content \<times> bool option) option" where
  "last_result_for c [] = None"
| "last_result_for c (b # bs) =
     (case last_result_for c bs of
        Some r \<Rightarrow> Some r
      | None \<Rightarrow> (case b of MToolResult i rc e \<Rightarrow> if i = c then Some (rc, e) else None | _ \<Rightarrow> None))"

definition results_unknown :: "session \<Rightarrow> msg_block list \<Rightarrow> bool" where
  "results_unknown s bs =
     list_all (\<lambda>b. case b of
                     MToolResult i rc e \<Rightarrow> childToolToParent s i = None \<and> findToolBlockById i s = None
                   | _ \<Rightarrow> True) bs"

text \<open>A tool-result delta for a tool id is a text delta whose parent tool id is that id.\<close>

definition is_result_delta :: "string \<Rightarrow> sdk_message \<Rightarrow> bool" where
  "is_result_delta c m =
     (parent_tool_use_id m = Some c \<and>
      (case body m of StreamEvent (ContentBlockDelta i (TextDelta t)) \<Rightarrow> True | _ \<Rightarrow> False))"

definition delta_text :: "sdk_message \<Rightarrow> string" where
  "delta_text m = (case body m of StreamEvent (ContentBlockDelta i (TextDelta t)) \<Rightarrow> t | _ \<Rightarrow> [])"

text \<open>The ids of the tool uses a message starts (a tool-use content block, or the tool-use
  blocks of a whole assistant message), and the messages that declare a child id as a
  sub-agent tool use under a parent other than \<open>p\<close>.\<close>

definition tool_use_ids :: "sdk_message \<Rightarrow> string list" where
  "tool_use_ids m =
     (case body m of
        StreamEvent (ContentBlockStart i (StartToolUse c n inp)) \<Rightarrow> [c]
      | AssistantMessage (BlockContent bs) \<Rightarrow>
          concat (map (\<lambda>b. case b of MToolUse c n inp \<Rightarrow> [c] | _ \<Rightarrow> []) bs)
      | _ \<Rightarrow> [])"

definition redeclares :: "string \<Rightarrow> string \<Rightarrow> sdk_message \<Rightarrow> bool" where
  "redeclares c p m =
     (truthy (parent_tool_use_id m) \<and> or_empty (parent_tool_use_id m) \<noteq> p \<and> c \<in> set (tool_use_ids m))"

definition action_redeclares :: "string \<Rightarrow> string \<Rightarrow> action \<Rightarrow> bool" where
  "action_redeclares c p a = (case a of RuntimeMessage rp now m \<Rightarrow> redeclares c p m | _ \<Rightarrow> False)"

section \<open>Concrete inputs\<close>

text \<open>A configuration whose parsers never succeed, clock readings, and three states of a
  session: after \<^verbatim>\<open>initializeAgent\<close> without a prompt, after one message has been enqueued
  (a run is live), and after the run has opened a thinking block.\<close>

definition no_parse :: "string \<Rightarrow> json_text option" where
  "no_parse t = None"

definition sample_config :: "version \<Rightarrow> config" where
  "sample_config v = \<lparr>version = v, parsePartialJson = no_parse, JSON_parse = no_parse\<rparr>"

definition at :: "int \<Rightarrow> clock" where
  "at n = \<lparr>ms = n, iso = ''T'' @ String_nat (nat n)\<rparr>"

definition sample_start :: "version \<Rightarrow> session" where
  "sample_start v = initializeAgent v (at 1000) ''uuid-1'' ''/ws'' None initial_session"

definition sample_running :: "version \<Rightarrow> session" where
  "sample_running v = snd (enqueueUserMessage v (at 1001) ''hello'' (sample_start v))"

definition sample_thinking :: "version \<Rightarrow> session" where
  "sample_thinking v = handleThinkingStart (at 2000) 0 (sample_running v)"

text \<open>
  A run that fails after its generator has yielded the first message, and the same
  session after a further message has been enqueued and served by the next run.
\<close>

definition failed_run :: "version \<Rightarrow> session option" where
  "failed_run v =
     exec_all (sample_config v)
       [Enqueue (at 1001) ''hello'', FeedNext 0, FeedResume 0,
        RuntimeThrows (0, 0) (at 1003) (ErrorInstance ''boom'')]
       (sample_start v)"

definition after_failed_run :: "version \<Rightarrow> session option" where
  "after_failed_run v =
     exec_all (sample_config v)
       [Enqueue (at 1001) ''hello'', FeedNext 0, FeedResume 0,
        RuntimeThrows (0, 0) (at 1003) (ErrorInstance ''boom''),
        Enqueue (at 1004) ''third'', ResumeStart 0, FeedNext 1, FeedResume 1, FeedNext 1]
       (sample_start v)"

text \<open>
  A run that ends while its generator waits for the queue, after which a further message
  is enqueued and the timer of that generator fires before the generator of the next run
  is asked.
\<close>

definition waiting_generator_wakes :: "version \<Rightarrow> session option" where
  "waiting_generator_wakes v =
     exec_all (sample_config v)
       [Enqueue (at 1001) ''hello'', FeedNext 0, FeedResume 0, FeedNext 0, RuntimeEnds (0, 0),
        Enqueue (at 1004) ''again'', ResumeStart 0, FeedTimer 0, FeedResume 0]
       (sample_start v)"

text \<open>Messages of the runtime, and states of the later copy: with two tool blocks
  \<^verbatim>\<open>p1\<close> and \<^verbatim>\<open>p2\<close> in the transcript, with a child \<^verbatim>\<open>c1\<close> declared under \<^verbatim>\<open>p1\<close>, and with
  a placeholder for \<^verbatim>\<open>c1\<close> made by a tool result.\<close>

definition message_of :: "string option \<Rightarrow> sdk_body \<Rightarrow> sdk_message" where
  "message_of parent b = \<lparr>parent_tool_use_id = parent, body = b, stringified = None, error_field = None\<rparr>"

definition tool_use_msg :: "string option \<Rightarrow> nat \<Rightarrow> string \<Rightarrow> sdk_message" where
  "tool_use_msg parent i tid = message_of parent (StreamEvent (ContentBlockStart i (StartToolUse tid ''Task'' None)))"

definition text_delta_msg :: "string option \<Rightarrow> string \<Rightarrow> sdk_message" where
  "text_delta_msg parent t = message_of parent (StreamEvent (ContentBlockDelta 0 (TextDelta t)))"

definition result_start_msg :: "string option \<Rightarrow> nat \<Rightarrow> string \<Rightarrow> string \<Rightarrow> sdk_message" where
  "result_start_msg parent i tid c =
     message_of parent (StreamEvent (ContentBlockStart i (StartResult ToolResult (Some tid) (CString c) None)))"

definition thinking_start_msg :: "nat \<Rightarrow> sdk_message" where
  "thinking_start_msg i = message_of None (StreamEvent (ContentBlockStart i StartThinking))"

text \<open>
  A run that ends while an interrupt is in flight; a user message enqueued while a
  thinking block is open, followed by an interrupt call; and an interrupt call while the
  thinking block is the last thing in the transcript.
\<close>

definition ended_while_interrupting :: "version \<Rightarrow> session" where
  "ended_while_interrupting v =
     run_finally (0, 0) (snd (interruptCurrentResponse (sample_running v)))"

definition thinking_then_user :: "action list" where
  "thinking_then_user =
     [Enqueue (at 1001) ''hello'', RuntimeMessage (0, 0) (at 2000) (thinking_start_msg 0),
      Enqueue (at 2100) ''more'', Interrupt]"

definition thinking_interrupted :: "action list" where
  "thinking_interrupted =
     [Enqueue (at 1001) ''hello'', RuntimeMessage (0, 0) (at 2000) (thinking_start_msg 0), Interrupt]"

definition input_delta_msg :: "string option \<Rightarrow> nat \<Rightarrow> string \<Rightarrow> sdk_message" where
  "input_delta_msg parent i pj = message_of parent (StreamEvent (ContentBlockDelta i (InputJsonDelta pj)))"

definition user_result_msg :: "string option \<Rightarrow> string \<Rightarrow> string \<Rightarrow> sdk_message" where
  "user_result_msg parent tid c =
     message_of parent (UserMessage (BlockContent [MToolResult tid (CString c) None]))"

definition sample_parents :: session where
  "sample_parents =
     apply_messages (sample_config IndexTs)
       [(at 1002, tool_use_msg None 0 ''p1''), (at 1003, tool_use_msg None 1 ''p2'')]
       (sample_running IndexTs)"

definition sample_child :: session where
  "sample_child =
     dispatch_v2 (sample_config IndexTs) (at 1004) (tool_use_msg (Some ''p1'') 2 ''c1'') sample_parents"

definition sample_placeholder :: session where
  "sample_placeholder =
     dispatch_v2 (sample_config IndexTs) (at 1004) (result_start_msg (Some ''p1'') 2 ''c1'' ''ab'')
       sample_parents"

section \<open>Verification\<close>

subsection \<open>The push-protocol encoder\<close>

lemma join_LF_snoc: "ls \<noteq> [] \<Longrightarrow> join [LF] ls @ [LF] = concat (map (\<lambda>l. l @ [LF]) ls)"
  by (induction "[LF]" ls rule: join.induct) auto

lemma LF_neq_CR [simp]: "LF \<noteq> CR" "CR \<noteq> LF"
  by (simp_all add: LF_def CR_def)

lemma read_lines_LF: "read_lines cur (LF # rest) = rev cur # read_lines [] rest"
  by (cases rest) simp_all

lemma read_lines_char:
  "c \<noteq> LF \<Longrightarrow> c \<noteq> CR \<Longrightarrow> rest \<noteq> [] \<Longrightarrow> read_lines cur (c # rest) = read_lines (c # cur) rest"
  by (cases rest) simp_all

lemma read_lines_line:
  "LF \<notin> set l \<Longrightarrow> CR \<notin> set l \<Longrightarrow>
   read_lines cur (l @ LF # rest) = (rev cur @ l) # read_lines [] rest"
proof (induction l arbitrary: cur)
  case Nil
  show ?case by (simp add: read_lines_LF)
next
  case (Cons c l)
  have "read_lines cur (c # (l @ LF # rest)) = read_lines (c # cur) (l @ LF # rest)"
    by (rule read_lines_char) (use Cons.prems in auto)
  then show ?case using Cons by simp
qed

lemma read_lines_lines:
  "\<forall>l \<in> set ls. LF \<notin> set l \<and> CR \<notin> set l \<Longrightarrow>
   read_lines [] (concat (map (\<lambda>l. l @ [LF]) ls) @ rest) = ls @ read_lines [] rest"
  by (induction ls) (auto simp: read_lines_line)

lemma group_frames_body:
  "\<forall>l \<in> set ls. l \<noteq> [] \<Longrightarrow> group_frames cur (ls @ [] # rest) = (rev cur @ ls) # group_frames [] rest"
  by (induction ls arbitrary: cur) auto

lemma String_nat_digits: "set (String_nat n) \<subseteq> set ''0123456789''"
proof (induction n rule: String_nat.induct)
  case (1 n)
  have d: "\<And>k. digit_char k \<in> set ''0123456789''"
    unfolding digit_char_def by (rule nth_mem) simp
  show ?case
  proof (cases "n < 10")
    case True
    then show ?thesis using d[of n] by (subst String_nat.simps) simp
  next
    case False
    then show ?thesis using 1 d[of "n mod 10"] by (subst String_nat.simps) auto
  qed
qed

lemma break_notin_String_nat: "LF \<notin> set (String_nat n) \<and> CR \<notin> set (String_nat n)"
  using String_nat_digits[of n] by (auto simp: LF_def CR_def)

lemma break_notin_json_int: "LF \<notin> set (json_int i) \<and> CR \<notin> set (json_int i)"
  using break_notin_String_nat by (simp add: json_int_def Let_def) (simp add: LF_def CR_def)

lemma hex_char_in: "hex_char k \<in> set ''0123456789abcdef''"
  unfolding hex_char_def by (rule nth_mem) simp

lemma hex_char_not_break: "CHR 0x0A \<noteq> hex_char k" "CHR 0x0D \<noteq> hex_char k"
  using hex_char_in[of k] by auto

lemma break_notin_json_escape: "LF \<notin> set (json_escape c) \<and> CR \<notin> set (json_escape c)"
  by (simp add: json_escape_def LF_def CR_def hex_char_not_break)

lemma break_notin_json_quote: "LF \<notin> set (json_quote s) \<and> CR \<notin> set (json_quote s)"
  using break_notin_json_escape by (auto simp: json_quote_def) (simp_all add: LF_def CR_def)

lemma notin_join:
  "k \<notin> set sep \<Longrightarrow> \<forall>x \<in> set xs. k \<notin> set x \<Longrightarrow> k \<notin> set (join sep xs)"
  by (induction sep xs rule: join.induct) auto

lemma notin_JSON_stringify:
  assumes "k = LF \<or> k = CR"
  shows "k \<notin> set (JSON_stringify v)"
proof (induction v)
  case JNull
  show ?case using assms by (auto simp: LF_def CR_def)
next
  case (JBool b)
  show ?case using assms by (auto simp: LF_def CR_def)
next
  case (JNum i)
  show ?case using assms break_notin_json_int by auto
next
  case (JStr s)
  show ?case using assms break_notin_json_quote by auto
next
  case (JArr vs)
  have "k \<notin> set (join '','' (map JSON_stringify vs))"
    by (rule notin_join) (use JArr assms in \<open>auto simp: LF_def CR_def\<close>)
  then show ?case using assms by (auto simp: LF_def CR_def)
next
  case (JObj kvs)
  have "k \<notin> set (join '','' (map (\<lambda>kv. json_quote (fst kv) @ '':'' @ JSON_stringify (snd kv)) kvs))"
  proof (rule notin_join)
    show "k \<notin> set '',''" using assms by (auto simp: LF_def CR_def)
    show "\<forall>x\<in>set (map (\<lambda>kv. json_quote (fst kv) @ '':'' @ JSON_stringify (snd kv)) kvs). k \<notin> set x"
    proof
      fix x assume "x \<in> set (map (\<lambda>kv. json_quote (fst kv) @ '':'' @ JSON_stringify (snd kv)) kvs)"
      then obtain kv where kv: "kv \<in> set kvs" and x: "x = json_quote (fst kv) @ '':'' @ JSON_stringify (snd kv)"
        by auto
      have "k \<notin> set (JSON_stringify (snd kv))"
        using JObj kv by (cases kv) auto
      moreover have "k \<notin> set (json_quote (fst kv))" using assms break_notin_json_quote by auto
      moreover have "k \<noteq> CHR '':''" using assms by (auto simp: LF_def CR_def)
      ultimately show "k \<notin> set x" using x by simp
    qed
  qed
  then show ?case using assms by (auto simp: LF_def CR_def)
qed

lemma cons_first_ne: "cons_first c ps \<noteq> []"
  by (cases ps) auto

lemma set_cons_first:
  "ps \<noteq> [] \<Longrightarrow> (\<forall>p \<in> set (cons_first c ps). k \<notin> set p) = (c \<noteq> k \<and> (\<forall>p \<in> set ps. k \<notin> set p))"
  by (cases ps) auto

lemma split_lines_ne: "split_lines s \<noteq> []"
  by (induction s rule: split_lines.induct) (auto simp: cons_first_ne)

lemma LF_notin_split_lines: "\<forall>p \<in> set (split_lines s). LF \<notin> set p"
proof (induction s rule: split_lines.induct)
  case (3 c d cs)
  show ?case
  proof (cases "c = CR \<and> d = LF")
    case True
    then show ?thesis using 3 by simp
  next
    case False
    note nf = this
    show ?thesis
    proof (cases "c = LF")
      case True
      then show ?thesis using 3 nf by simp
    next
      case False
      then have "split_lines (c # d # cs) = cons_first c (split_lines (d # cs))"
        using nf by auto
      then show ?thesis
        using 3(3)[OF nf False] False by (simp only: set_cons_first[OF split_lines_ne]) simp
    qed
  qed
qed auto

lemma CR_notin_split_lines: "no_lone_CR s \<Longrightarrow> \<forall>p \<in> set (split_lines s). CR \<notin> set p"
proof (induction s rule: split_lines.induct)
  case (3 c d cs)
  show ?case
  proof (cases "c = CR \<and> d = LF")
    case True
    then show ?thesis using 3 by simp
  next
    case False
    note nf = this
    then have ncr: "c \<noteq> CR" using 3(4) by auto
    then have rest: "no_lone_CR (d # cs)" using 3(4) by simp
    show ?thesis
    proof (cases "c = LF")
      case True
      then show ?thesis using 3(2)[OF nf True rest] nf by simp
    next
      case False
      then have "split_lines (c # d # cs) = cons_first c (split_lines (d # cs))"
        using nf by auto
      then show ?thesis
        using 3(3)[OF nf False rest] ncr by (simp only: set_cons_first[OF split_lines_ne]) simp
    qed
  qed
qed auto

lemma sse_lines_body: "sse_lines event d = frame_body event d @ [[]]"
  by (simp add: frame_body_def sse_lines_def butlast_append)

lemma frame_body_eq:
  "frame_body event d = event_line event @ data_lines d"
  by (simp add: frame_body_def sse_lines_def butlast_append)

lemma data_lines_ne: "data_lines d \<noteq> []"
  by (auto simp: data_lines_def split_lines_ne split: sse_data.splits jval.splits)

lemma data_lines_ok: "l \<in> set (data_lines d) \<Longrightarrow> l \<noteq> [] \<and> LF \<notin> set l"
  using LF_notin_split_lines[of "case d of DValue (JStr s) \<Rightarrow> s | _ \<Rightarrow> []"]
        notin_JSON_stringify[of LF "case d of DValue v \<Rightarrow> v"]
  by (auto simp: data_lines_def LF_def split: sse_data.splits jval.splits)

lemma data_lines_no_CR:
  assumes "case d of DValue (JStr s) \<Rightarrow> no_lone_CR s | _ \<Rightarrow> True" "l \<in> set (data_lines d)"
  shows "CR \<notin> set l"
proof (cases d)
  case DUndefined
  then show ?thesis using assms by (auto simp: data_lines_def CR_def)
next
  case (DValue v)
  show ?thesis
  proof (cases v)
    case (JStr s)
    then show ?thesis
      using assms DValue CR_notin_split_lines[of s] by (auto simp: data_lines_def CR_def)
  qed (use assms DValue notin_JSON_stringify[of CR v] in \<open>auto simp: data_lines_def CR_def\<close>)
qed

lemma frame_body_ne: "frame_body event d \<noteq> []"
  by (simp add: frame_body_eq data_lines_ne)

lemma frame_body_ok:
  "LF \<notin> set event \<Longrightarrow> l \<in> set (frame_body event d) \<Longrightarrow> l \<noteq> [] \<and> LF \<notin> set l"
  using data_lines_ok[of l d] by (auto simp: frame_body_eq event_line_def LF_def split: if_splits)

lemma frame_body_no_CR:
  "plain_frame event d \<Longrightarrow> l \<in> set (frame_body event d) \<Longrightarrow> CR \<notin> set l"
  using data_lines_no_CR[of d l]
  by (auto simp: plain_frame_def frame_body_eq event_line_def CR_def split: if_splits)

lemma formatSse_unlines:
  "formatSse event d = concat (map (\<lambda>l. l @ [LF]) (frame_body event d)) @ [LF]"
proof -
  have "sse_lines event d \<noteq> []" by (simp add: sse_lines_body)
  then have "formatSse event d = concat (map (\<lambda>l. l @ [LF]) (sse_lines event d))"
    unfolding formatSse_def by (rule join_LF_snoc)
  then show ?thesis by (simp add: sse_lines_body)
qed

lemma decode_one:
  assumes "plain_frame event d"
  shows "decode_stream (formatSse event d @ rest) = frame_body event d # decode_stream rest"
proof -
  have ev: "LF \<notin> set event" using assms by (simp add: plain_frame_def)
  have lf: "\<forall>l \<in> set (frame_body event d). LF \<notin> set l \<and> CR \<notin> set l"
    using frame_body_ok[OF ev] frame_body_no_CR[OF assms] by blast
  have ne: "\<forall>l \<in> set (frame_body event d). l \<noteq> []"
    using frame_body_ok[OF ev] by blast
  have "read_lines [] (formatSse event d @ rest)
        = frame_body event d @ read_lines [] (LF # rest)"
    using read_lines_lines[OF lf, of "LF # rest"] by (simp add: formatSse_unlines)
  also have "\<dots> = frame_body event d @ [] # read_lines [] rest" by (simp add: read_lines_LF)
  finally show ?thesis
    unfolding decode_stream_def using group_frames_body[OF ne, of "[]"] by simp
qed

lemma decode_stream_frames:
  "\<forall>f \<in> set fs. plain_frame (fst f) (snd f) \<Longrightarrow>
   decode_stream (concat (map (\<lambda>f. formatSse (fst f) (snd f)) fs))
     = map (\<lambda>f. frame_body (fst f) (snd f)) fs"
proof (induction fs)
  case Nil
  show ?case by (simp add: decode_stream_def)
next
  case (Cons f fs)
  then show ?case using decode_one[of "fst f" "snd f"] by simp
qed

lemma takeWhile_line:
  "LF \<notin> set l \<Longrightarrow> CR \<notin> set l \<Longrightarrow> takeWhile (\<lambda>c. c \<noteq> LF \<and> c \<noteq> CR) (l @ LF # rest) = l"
  by (induction l) auto

lemma length_cons_first: "ps \<noteq> [] \<Longrightarrow> length (cons_first c ps) = length ps"
  by (cases ps) auto

lemma count_split_lines: "length (split_lines s) = Suc (count_list s LF)"
  by (induction s rule: split_lines.induct) (auto simp: length_cons_first split_lines_ne)

lemma first_line_event:
  assumes "event \<noteq> []" "LF \<notin> set event" "CR \<notin> set event"
  shows "first_line (formatSse event d) = ''event: '' @ event"
proof -
  have "LF \<notin> set (''event: '' @ event)" "CR \<notin> set (''event: '' @ event)"
    using assms by (simp_all add: LF_def CR_def)
  then have "takeWhile (\<lambda>c. c \<noteq> LF \<and> c \<noteq> CR)
       ((''event: '' @ event) @ LF # (concat (map (\<lambda>l. l @ [LF]) (data_lines d)) @ [LF]))
     = ''event: '' @ event"
    by (rule takeWhile_line)
  then show ?thesis using assms by (simp add: first_line_def formatSse_unlines frame_body_eq event_line_def)
qed

text \<open>
  What holds of the frames of \<^verbatim>\<open>formatSse\<close> when the event name holds no line end and a
  string payload holds no carriage return other than directly before a line feed. The
  frame is its body lines, each ended by a line feed, followed by one empty line; every
  body line is non-empty and free of line ends, so the empty line that ends the frame is
  the only one. For a non-empty event name the first line is \<^verbatim>\<open>event: \<close> followed by the
  name. A string payload is split at each line feed (a carriage return directly before
  it belonging to the break): each piece is its own \<^verbatim>\<open>data: \<close> line, and there is one
  piece more than there are line feeds. A null payload is the line \<^verbatim>\<open>data: null\<close>. The
  reader recovers from the concatenation of any such frames exactly the bodies of those
  frames, in order.
\<close>

lemma formatSse_plain_frames:
  "formatSse event d = concat (map (\<lambda>l. l @ [LF]) (frame_body event d)) @ [LF]"
  "frame_body event d \<noteq> []"
  "plain_frame event d \<Longrightarrow> \<forall>l \<in> set (frame_body event d). l \<noteq> [] \<and> LF \<notin> set l \<and> CR \<notin> set l"
  "event \<noteq> [] \<Longrightarrow> LF \<notin> set event \<Longrightarrow> CR \<notin> set event \<Longrightarrow>
     first_line (formatSse event d) = ''event: '' @ event"
  "frame_body event (DValue (JStr s)) = event_line event @ map (\<lambda>part. ''data: '' @ part) (split_lines s)"
  "\<forall>part \<in> set (split_lines s). LF \<notin> set part"
  "length (split_lines s) = Suc (count_list s LF)"
  "frame_body event (DValue JNull) = event_line event @ [''data: null'']"
  "\<forall>f \<in> set fs. plain_frame (fst f) (snd f) \<Longrightarrow>
     decode_stream (concat (map (\<lambda>f. formatSse (fst f) (snd f)) fs))
       = map (\<lambda>f. frame_body (fst f) (snd f)) fs"
proof -
  show "formatSse event d = concat (map (\<lambda>l. l @ [LF]) (frame_body event d)) @ [LF]"
    by (rule formatSse_unlines)
  show "frame_body event d \<noteq> []" by (rule frame_body_ne)
  show "\<forall>l \<in> set (frame_body event d). l \<noteq> [] \<and> LF \<notin> set l \<and> CR \<notin> set l" if "plain_frame event d"
    using frame_body_ok[of event] frame_body_no_CR[OF that] that by (auto simp: plain_frame_def)
  show "first_line (formatSse event d) = ''event: '' @ event"
    if "event \<noteq> []" "LF \<notin> set event" "CR \<notin> set event"
    using that by (rule first_line_event)
  show "frame_body event (DValue (JStr s)) = event_line event @ map (\<lambda>part. ''data: '' @ part) (split_lines s)"
    by (simp add: frame_body_eq data_lines_def)
  show "\<forall>part \<in> set (split_lines s). LF \<notin> set part" by (rule LF_notin_split_lines)
  show "length (split_lines s) = Suc (count_list s LF)" by (rule count_split_lines)
  show "frame_body event (DValue JNull) = event_line event @ [''data: null'']"
    by (simp add: frame_body_eq data_lines_def)
  show "decode_stream (concat (map (\<lambda>f. formatSse (fst f) (snd f)) fs))
          = map (\<lambda>f. frame_body (fst f) (snd f)) fs" if "\<forall>f \<in> set fs. plain_frame (fst f) (snd f)"
    using that by (rule decode_stream_frames)
qed

lemma formatSse_plain_frames_example:
  "formatSse ''chat:message-chunk'' (DValue (JStr [CHR ''a'', CR, LF, CHR ''b'', LF]))
     = ''event: chat:message-chunk'' @ [LF] @ ''data: a'' @ [LF] @ ''data: b'' @ [LF] @ ''data: '' @ [LF, LF]
   \<and> decode_stream (formatSse ''chat:message-stopped'' (DValue JNull)
        @ formatSse ''chat:status'' (DValue (JObj [(''sessionState'', JStr ''idle'')])))
       = [[''event: chat:message-stopped'', ''data: null''],
          [''event: chat:status'', ''data: {'' @ [CHR 0x22] @ ''sessionState'' @ [CHR 0x22] @ '':'' @ [CHR 0x22] @ ''idle'' @ [CHR 0x22] @ ''}'']]"
  using formatSse_plain_frames(9)[of
      "[(''chat:message-stopped'', DValue JNull), (''chat:status'', DValue (JObj [(''sessionState'', JStr ''idle'')]))]"]
  by (simp add: frame_body_def sse_lines_def data_lines_def LF_def CR_def json_quote_def json_escape_def
      formatSse_def event_line_def plain_frame_def)

text \<open>
  Claim C10 at a concrete input. For a string payload that holds two carriage returns in
  a row, \<^verbatim>\<open>formatSse\<close> writes them into the middle of one \<^verbatim>\<open>data: \<close> line, since it splits
  at line feeds only. The reader ends a line at each of them: the frame it receives ends
  at the empty line between them, with the data cut short, and what follows is read as
  another frame. With one carriage return the data line is cut in two inside the frame.
\<close>

theorem formatSse_lone_CR_ends_frame:
  "formatSse ''chat:message-chunk'' (DValue (JStr [CHR ''a'', CR, CR, CHR ''b'']))
     = ''event: chat:message-chunk'' @ [LF] @ ''data: a'' @ [CR, CR] @ ''b'' @ [LF, LF]
   \<and> frame_body ''chat:message-chunk'' (DValue (JStr [CHR ''a'', CR, CR, CHR ''b'']))
       = [''event: chat:message-chunk'', ''data: a'' @ [CR, CR] @ ''b'']
   \<and> decode_stream (formatSse ''chat:message-chunk'' (DValue (JStr [CHR ''a'', CR, CR, CHR ''b''])))
       = [[''event: chat:message-chunk'', ''data: a''], [''b'']]
   \<and> decode_stream (formatSse ''chat:message-chunk'' (DValue (JStr [CHR ''a'', CR, CHR ''b''])))
       = [[''event: chat:message-chunk'', ''data: a'', ''b'']]"
  by (simp add: formatSse_def sse_lines_def frame_body_def event_line_def data_lines_def
      decode_stream_def LF_def CR_def)


subsection \<open>What the handlers of the event loop leave alone\<close>

named_theorems ctl_frame

lemma ctl_broadcast [ctl_frame]: "ctl (broadcast ev d s) = ctl s"
  by (simp add: ctl_def broadcast_def)

lemma ctl_setSessionState [ctl_frame]: "ctl (setSessionState st s) = ctl s"
  by (simp add: setSessionState_def ctl_frame) (simp add: ctl_def)

lemma ctl_ensureAssistantMessage [ctl_frame]: "ctl (ensureAssistantMessage now s) = ctl s"
  by (simp add: ctl_def ensureAssistantMessage_def)

lemma ctl_update_last_message [ctl_frame]: "ctl (update_last_message f s) = ctl s"
  by (simp add: ctl_def update_last_message_def)

lemma ctl_on_content_array [ctl_frame]: "ctl (on_content_array now f s) = ctl s"
  by (simp add: on_content_array_def ctl_frame)

lemma ctl_appendTextChunk [ctl_frame]: "ctl (appendTextChunk now c s) = ctl s"
  by (simp add: appendTextChunk_def ctl_frame)

lemma ctl_handlers [ctl_frame]:
  "ctl (handleThinkingStart now i s) = ctl s"
  "ctl (handleThinkingChunk now i d s) = ctl s"
  "ctl (handleToolUseStart now tp s) = ctl s"
  "ctl (handleToolInputDelta cfg now i tid d s) = ctl s"
  "ctl (handleContentBlockStop cfg now i otid s) = ctl s"
  "ctl (handleToolResult_v1 now tid c e s) = ctl s"
  by (simp_all add: handleThinkingStart_def handleThinkingChunk_def handleToolUseStart_def
      handleToolInputDelta_def handleContentBlockStop_def handleToolResult_v1_def ctl_frame)

lemma ctl_streaming [simp]: "ctl (s\<lparr>isStreamingMessage := b\<rparr>) = ctl s"
  by (simp add: ctl_def)

lemma ctl_handleMessageComplete [ctl_frame]: "ctl (handleMessageComplete s) = ctl s"
  by (simp add: handleMessageComplete_def ctl_frame)

lemma ctl_modifyToolBlock [ctl_frame]: "ctl (modifyToolBlock tid f s) = ctl s"
  by (simp add: ctl_def modifyToolBlock_def)

lemma ctl_childmap [simp]: "ctl (s\<lparr>childToolToParent := m\<rparr>) = ctl s"
  "ctl (s\<lparr>streamIndexToToolId := m1\<rparr>) = ctl s"
  "ctl (s\<lparr>toolResultIndexToId := m2\<rparr>) = ctl s"
  "ctl (s\<lparr>logLines := l\<rparr>) = ctl s"
  "ctl (s\<lparr>systemInitInfo := i\<rparr>) = ctl s"
  by (simp_all add: ctl_def)

lemma ctl_subagent [ctl_frame]:
  "ctl (handleSubagentToolUseStart p tp s) = ctl s"
  "ctl (ensureSubagentToolPlaceholder p tid s) = ctl s"
  "ctl (modify_call p tid g s) = ctl s"
  "ctl (setToolResult tid c e s) = ctl s"
  by (simp_all add: handleSubagentToolUseStart_def ensureSubagentToolPlaceholder_def
      modify_call_def setToolResult_def ctl_frame split: option.splits)

lemma ctl_subagent_opt [ctl_frame]:
  "handleSubagentToolResultStart tid c b s = Some s' \<Longrightarrow> ctl s' = ctl s"
  "handleSubagentToolResultComplete tid c e s = Some s' \<Longrightarrow> ctl s' = ctl s"
  "appendSubagentToolResultDelta tid d s = Some s' \<Longrightarrow> ctl s' = ctl s"
  "finalizeSubagentToolResult tid s = Some s' \<Longrightarrow> ctl s' = ctl s"
  by (auto simp: handleSubagentToolResultStart_def handleSubagentToolResultComplete_def
      appendSubagentToolResultDelta_def finalizeSubagentToolResult_def ctl_frame split: option.splits)

lemma ctl_results [ctl_frame]:
  "ctl (snd (appendToolResultContent tid c e s)) = ctl s"
  "ctl (appendToolResultDelta tid d s) = ctl s"
  "ctl (handleToolResultStart tid c b s) = ctl s"
  "ctl (handleToolResultComplete tid c e s) = ctl s"
  "ctl (handleSubagentToolInputDelta cfg p tid d s) = ctl s"
  "ctl (finalizeSubagentToolInput cfg p tid s) = ctl s"
  "ctl (appendLogLine l s) = ctl s"
  by (auto simp: appendToolResultContent_def appendToolResultDelta_def handleToolResultStart_def
      handleToolResultComplete_def handleSubagentToolInputDelta_def finalizeSubagentToolInput_def
      appendLogLine_def Let_def ctl_frame split: option.splits)

lemma ctl_foldl: "(\<And>s b. ctl (f s b) = ctl s) \<Longrightarrow> ctl (foldl f s bs) = ctl s"
  by (induction bs arbitrary: s) auto

lemma ctl_v1_block [ctl_frame]: "ctl (assistant_result_v1 now s b) = ctl s"
  by (simp add: assistant_result_v1_def ctl_frame split: msg_block.splits)

lemma ctl_dispatch_v1 [ctl_frame]: "ctl (dispatch_v1 cfg now m s) = ctl s"
  by (simp add: dispatch_v1_def Let_def ctl_frame ctl_foldl
      split: sdk_body.splits stream_event.splits delta.splits start_block.splits option.splits msg_content.splits)

lemma ctl_v2_pieces [ctl_frame]:
  "ctl (ensure_placeholder_if_unmapped p tid s) = ctl s"
  "ctl (text_delta_v2 now m t s) = ctl s"
  "ctl (input_delta_v2 cfg now m i pj s) = ctl s"
  "ctl (tool_use_start_v2 now m i tid n inp s) = ctl s"
  "ctl (result_start_v2 m i tid c e s) = ctl s"
  "ctl (user_block_v2 m s b) = ctl s"
  "ctl (assistant_tool_use_v2 p s b) = ctl s"
  "ctl (assistant_result_v2 m s b) = ctl s"
  by (simp_all add: ensure_placeholder_if_unmapped_def text_delta_v2_def input_delta_v2_def
      tool_use_start_v2_def result_start_v2_def user_block_v2_def assistant_tool_use_v2_def
      assistant_result_v2_def Let_def ctl_frame
      split: msg_block.splits)

lemma ctl_assistant_text_v2 [ctl_frame]: "ctl (assistant_text_v2 p mc s) = ctl s"
  using ctl_results(1)[of p "formatAssistantContent mc" None s]
  by (cases "appendToolResultContent p (formatAssistantContent mc) None s")
     (simp add: assistant_text_v2_def Let_def ctl_frame)

lemma ctl_subagent_result_stop [ctl_frame]: "ctl (subagent_result_stop i s) = ctl s"
  by (auto simp: subagent_result_stop_def Let_def ctl_frame split: option.splits dest!: ctl_subagent_opt(4))

lemma ctl_block_stop_v2 [ctl_frame]: "ctl (block_stop_v2 cfg now m i s) = ctl s"
  by (simp add: block_stop_v2_def Let_def ctl_frame)

lemma ctl_assistant_v2 [ctl_frame]: "ctl (assistant_v2 m c s) = ctl s"
  by (simp add: assistant_v2_def Let_def ctl_frame ctl_foldl)

lemma ctl_dispatch_v2 [ctl_frame]: "ctl (dispatch_v2 cfg now m s) = ctl s"
  by (simp add: dispatch_v2_def Let_def ctl_frame ctl_foldl
      split: sdk_body.splits stream_event.splits delta.splits start_block.splits option.splits)

lemma ctl_preamble_v2 [ctl_frame]: "ctl (preamble_v2 now m s) = ctl s"
  by (simp add: preamble_v2_def Let_def ctl_frame split: option.splits)

lemma ctl_loop_body:
  "loop_body cfg now m s = Continue s' \<Longrightarrow> ctl s' = ctl s"
  "loop_body cfg now m s = Break s' \<Longrightarrow> ctl s' = ctl s"
  by (auto simp: loop_body_def Let_def ctl_frame split: version.splits if_splits)

subsection \<open>Evaluation of concrete sessions\<close>

lemmas eval_defs = exec_def enqueueUserMessage_def Let_def trim_def isWhiteSpace_def
  setSessionState_def broadcast_def isSessionActive_def startStreamingSession_def
  startStreamingSession_guarded_def run_finally_def run_catch_def handleMessageError_def
  error_message_of_def initializeAgent_def initial_session_def String_nat.simps
  sample_config_def sample_start_def at_def digit_char_def or_empty_def

lemmas eval_more = eval_defs sample_running_def sample_thinking_def handleThinkingStart_def
  on_content_array_def update_last_message_def ensureAssistantMessage_def ensureContentArray_def
  interruptCurrentResponse_def interrupt_resolved_def handleMessageStopped_def close_thinking_def
  appendTextChunk_def text_block_def getAgentState_def chat_send_def


subsection \<open>At most one runtime session\<close>

lemma ctl_msgs [simp]: "ctl (s\<lparr>messages := m\<rparr>) = ctl s" "ctl (s\<lparr>messageSequence := n\<rparr>) = ctl s"
  "ctl (s\<lparr>sessionState := st\<rparr>) = ctl s" "ctl (s\<lparr>broadcasts := bc\<rparr>) = ctl s"
  by (simp_all add: ctl_def)

lemma ctl_handleMessageError [ctl_frame]: "ctl (handleMessageError now e s) = ctl s"
  by (simp add: handleMessageError_def Let_def ctl_frame)

lemma ctl_run_catch [ctl_frame]: "ctl (run_catch now th s) = ctl s"
  by (simp add: run_catch_def ctl_frame)

lemma ctl_handleMessageStopped [ctl_frame]: "ctl (handleMessageStopped now s) = ctl s"
proof -
  define s1 where "s1 = setSessionState Idle (s\<lparr>isStreamingMessage := False\<rparr>)"
  have c: "ctl s1 = ctl s" by (simp add: s1_def ctl_frame)
  have "handleMessageStopped now s = s1 \<or> (\<exists>f. handleMessageStopped now s = update_last_message f s1)"
    unfolding handleMessageStopped_def Let_def s1_def[symmetric]
    by (cases "content (last (messages s1))") auto
  then show ?thesis using c by (auto simp: ctl_frame)
qed

lemma ctl_runs:
  assumes "ctl s' = ctl s"
  shows "liveRuns s' = liveRuns s" "isProcessing s' = isProcessing s" "querySession s' = querySession s"
    "resolvedPromises s' = resolvedPromises s" "promiseSeq s' = promiseSeq s"
    "startWaiters s' = startWaiters s" "sessionTerminationPromise s' = sessionTerminationPromise s"
    "callSeq s' = callSeq s" "messageQueue s' = messageQueue s" "hasInitialPrompt s' = hasInitialPrompt s"
    "interruptCalls s' = interruptCalls s" "isInterruptingResponse s' = isInterruptingResponse s"
    "interruptsInFlight s' = interruptsInFlight s" "feeds s' = feeds s"
    "resolvedCalls s' = resolvedCalls s" "shouldAbortSession s' = shouldAbortSession s"
  using assms unfolding ctl_def by blast+

lemma single_runtime_cong:
  "liveRuns s' = liveRuns s \<Longrightarrow> isProcessing s' = isProcessing s \<Longrightarrow> querySession s' = querySession s
   \<Longrightarrow> resolvedPromises s' = resolvedPromises s \<Longrightarrow> promiseSeq s' = promiseSeq s
   \<Longrightarrow> single_runtime s' = single_runtime s"
  unfolding single_runtime_def by presburger

lemma single_runtime_ctl: "ctl s' = ctl s \<Longrightarrow> single_runtime s' = single_runtime s"
  by (rule single_runtime_cong) (rule ctl_runs, assumption)+


lemma broadcast_field [simp]:
  "agentDir (broadcast ev d s) = agentDir s"
  "hasInitialPrompt (broadcast ev d s) = hasInitialPrompt s"
  "sessionState (broadcast ev d s) = sessionState s"
  "querySession (broadcast ev d s) = querySession s"
  "isProcessing (broadcast ev d s) = isProcessing s"
  "shouldAbortSession (broadcast ev d s) = shouldAbortSession s"
  "sessionTerminationPromise (broadcast ev d s) = sessionTerminationPromise s"
  "isInterruptingResponse (broadcast ev d s) = isInterruptingResponse s"
  "isStreamingMessage (broadcast ev d s) = isStreamingMessage s"
  "messages (broadcast ev d s) = messages s"
  "streamIndexToToolId (broadcast ev d s) = streamIndexToToolId s"
  "messageSequence (broadcast ev d s) = messageSequence s"
  "messageQueue (broadcast ev d s) = messageQueue s"
  "toolResultIndexToId (broadcast ev d s) = toolResultIndexToId s"
  "childToolToParent (broadcast ev d s) = childToolToParent s"
  "sessionId (broadcast ev d s) = sessionId s"
  "logLines (broadcast ev d s) = logLines s"
  "systemInitInfo (broadcast ev d s) = systemInitInfo s"
  "liveRuns (broadcast ev d s) = liveRuns s"
  "runSeq (broadcast ev d s) = runSeq s"
  "startWaiters (broadcast ev d s) = startWaiters s"
  "promiseSeq (broadcast ev d s) = promiseSeq s"
  "resolvedPromises (broadcast ev d s) = resolvedPromises s"
  "interruptCalls (broadcast ev d s) = interruptCalls s"
  "interruptsInFlight (broadcast ev d s) = interruptsInFlight s"
  "callSeq (broadcast ev d s) = callSeq s"
  "feeds (broadcast ev d s) = feeds s"
  "resolvedCalls (broadcast ev d s) = resolvedCalls s"
  by (simp_all add: broadcast_def)

lemma setSessionState_field [simp]:
  "agentDir (setSessionState st s) = agentDir s"
  "hasInitialPrompt (setSessionState st s) = hasInitialPrompt s"
  "querySession (setSessionState st s) = querySession s"
  "isProcessing (setSessionState st s) = isProcessing s"
  "shouldAbortSession (setSessionState st s) = shouldAbortSession s"
  "sessionTerminationPromise (setSessionState st s) = sessionTerminationPromise s"
  "isInterruptingResponse (setSessionState st s) = isInterruptingResponse s"
  "isStreamingMessage (setSessionState st s) = isStreamingMessage s"
  "messages (setSessionState st s) = messages s"
  "streamIndexToToolId (setSessionState st s) = streamIndexToToolId s"
  "messageSequence (setSessionState st s) = messageSequence s"
  "messageQueue (setSessionState st s) = messageQueue s"
  "toolResultIndexToId (setSessionState st s) = toolResultIndexToId s"
  "childToolToParent (setSessionState st s) = childToolToParent s"
  "sessionId (setSessionState st s) = sessionId s"
  "logLines (setSessionState st s) = logLines s"
  "systemInitInfo (setSessionState st s) = systemInitInfo s"
  "liveRuns (setSessionState st s) = liveRuns s"
  "runSeq (setSessionState st s) = runSeq s"
  "startWaiters (setSessionState st s) = startWaiters s"
  "promiseSeq (setSessionState st s) = promiseSeq s"
  "resolvedPromises (setSessionState st s) = resolvedPromises s"
  "interruptCalls (setSessionState st s) = interruptCalls s"
  "interruptsInFlight (setSessionState st s) = interruptsInFlight s"
  "callSeq (setSessionState st s) = callSeq s"
  "feeds (setSessionState st s) = feeds s"
  "resolvedCalls (setSessionState st s) = resolvedCalls s"
  by (simp_all add: setSessionState_def)

lemma guarded_field [simp]:
  "agentDir (startStreamingSession_guarded s) = agentDir s"
  "hasInitialPrompt (startStreamingSession_guarded s) = hasInitialPrompt s"
  "isInterruptingResponse (startStreamingSession_guarded s) = isInterruptingResponse s"
  "isStreamingMessage (startStreamingSession_guarded s) = isStreamingMessage s"
  "messages (startStreamingSession_guarded s) = messages s"
  "messageSequence (startStreamingSession_guarded s) = messageSequence s"
  "messageQueue (startStreamingSession_guarded s) = messageQueue s"
  "toolResultIndexToId (startStreamingSession_guarded s) = toolResultIndexToId s"
  "childToolToParent (startStreamingSession_guarded s) = childToolToParent s"
  "sessionId (startStreamingSession_guarded s) = sessionId s"
  "logLines (startStreamingSession_guarded s) = logLines s"
  "systemInitInfo (startStreamingSession_guarded s) = systemInitInfo s"
  "startWaiters (startStreamingSession_guarded s) = startWaiters s"
  "resolvedPromises (startStreamingSession_guarded s) = resolvedPromises s"
  "interruptCalls (startStreamingSession_guarded s) = interruptCalls s"
  "interruptsInFlight (startStreamingSession_guarded s) = interruptsInFlight s"
  "callSeq (startStreamingSession_guarded s) = callSeq s"
  "resolvedCalls (startStreamingSession_guarded s) = resolvedCalls s"
  by (simp_all add: startStreamingSession_guarded_def Let_def)

lemma start_field [simp]:
  "agentDir (startStreamingSession s) = agentDir s"
  "hasInitialPrompt (startStreamingSession s) = hasInitialPrompt s"
  "isInterruptingResponse (startStreamingSession s) = isInterruptingResponse s"
  "isStreamingMessage (startStreamingSession s) = isStreamingMessage s"
  "messages (startStreamingSession s) = messages s"
  "messageSequence (startStreamingSession s) = messageSequence s"
  "messageQueue (startStreamingSession s) = messageQueue s"
  "toolResultIndexToId (startStreamingSession s) = toolResultIndexToId s"
  "childToolToParent (startStreamingSession s) = childToolToParent s"
  "sessionId (startStreamingSession s) = sessionId s"
  "logLines (startStreamingSession s) = logLines s"
  "systemInitInfo (startStreamingSession s) = systemInitInfo s"
  "resolvedPromises (startStreamingSession s) = resolvedPromises s"
  "interruptCalls (startStreamingSession s) = interruptCalls s"
  "interruptsInFlight (startStreamingSession s) = interruptsInFlight s"
  "callSeq (startStreamingSession s) = callSeq s"
  "resolvedCalls (startStreamingSession s) = resolvedCalls s"
  by (simp_all add: startStreamingSession_def split: option.splits)

lemma single_runtime_initial: "single_runtime initial_session"
  by (simp add: single_runtime_def initial_session_def)

lemma guarded_idle:
  "\<not> isProcessing s \<Longrightarrow> querySession s = None \<Longrightarrow>
   liveRuns (startStreamingSession_guarded s) = liveRuns s @ [(runSeq s, promiseSeq s)]
   \<and> isProcessing (startStreamingSession_guarded s)
   \<and> querySession (startStreamingSession_guarded s) = Some (runSeq s)
   \<and> resolvedPromises (startStreamingSession_guarded s) = resolvedPromises s
   \<and> promiseSeq (startStreamingSession_guarded s) = Suc (promiseSeq s)
   \<and> sessionTerminationPromise (startStreamingSession_guarded s) = Some (promiseSeq s)"
  by (simp add: startStreamingSession_guarded_def Let_def)

lemma guarded_busy:
  "isProcessing s \<or> querySession s \<noteq> None \<Longrightarrow> startStreamingSession_guarded s = s"
  by (simp add: startStreamingSession_guarded_def)

lemma single_runtime_guarded:
  assumes "single_runtime s"
  shows "single_runtime (startStreamingSession_guarded s)"
proof (cases "isProcessing s \<or> querySession s \<noteq> None")
  case True
  then show ?thesis using assms by (simp add: guarded_busy)
next
  case False
  then have e: "liveRuns s = []" using assms by (simp add: single_runtime_def)
  have lt: "list_all (\<lambda>p. p < promiseSeq s) (resolvedPromises s)"
    using assms by (simp add: single_runtime_def)
  then have nin: "promiseSeq s \<notin> set (resolvedPromises s)"
    by (auto simp: list_all_iff)
  have lt': "list_all (\<lambda>p. p < Suc (promiseSeq s)) (resolvedPromises s)"
    using lt by (auto simp: list_all_iff)
  from False have g: "\<not> isProcessing s" "querySession s = None" by simp_all
  show ?thesis
    using guarded_idle[OF g] e nin lt' by (simp add: single_runtime_def)
qed

lemma single_runtime_start:
  assumes "single_runtime s"
  shows "single_runtime (startStreamingSession s)"
proof (cases "sessionTerminationPromise s")
  case None
  then show ?thesis using assms by (simp add: startStreamingSession_def single_runtime_guarded)
next
  case (Some p)
  then have "startStreamingSession s = s\<lparr>startWaiters := startWaiters s @ [p]\<rparr>"
    by (simp add: startStreamingSession_def)
  then show ?thesis using assms single_runtime_cong[of "s\<lparr>startWaiters := startWaiters s @ [p]\<rparr>" s] by simp
qed

lemma finally_fields:
  "liveRuns (run_finally rp s) = remove1 rp (liveRuns s)"
  "isProcessing (run_finally rp s) = False"
  "querySession (run_finally rp s) = None"
  "resolvedPromises (run_finally rp s) = resolvedPromises s @ [snd rp]"
  "promiseSeq (run_finally rp s) = promiseSeq s"
  by (simp_all add: run_finally_def Let_def)

lemma single_runtime_finally:
  assumes "single_runtime s" "rp \<in> set (liveRuns s)"
  shows "single_runtime (run_finally rp s)"
proof -
  from assms have l: "liveRuns s = [rp]"
    by (cases "liveRuns s") (auto simp: single_runtime_def)
  have lt: "list_all (\<lambda>p. p < promiseSeq s) (resolvedPromises s)" "snd rp < promiseSeq s"
    using assms l by (simp_all add: single_runtime_def)
  show ?thesis
    using l lt by (simp add: single_runtime_def finally_fields)
qed


lemma enqueue_blank: "trim t = [] \<Longrightarrow> enqueueUserMessage v now t s = (ReturnedAtOnce, s)"
  by (simp add: enqueueUserMessage_def)

lemma isSessionActive_cong:
  "isProcessing s' = isProcessing s \<Longrightarrow> querySession s' = querySession s \<Longrightarrow>
   isSessionActive s' = isSessionActive s"
  by (simp add: isSessionActive_def)

lemma enqueue_accepts:
  assumes "trim t \<noteq> []"
  shows "fst (enqueueUserMessage v now t s) = AwaitingFeed (callSeq s)"
    and "messages (snd (enqueueUserMessage v now t s)) = messages s @
           [\<lparr>msg_id = String_nat (messageSequence s), role = User, content = Plain (trim t),
             timestamp = iso now\<rparr>]"
    and "messageQueue (snd (enqueueUserMessage v now t s)) = messageQueue s @
           [\<lparr>item_text = trim t, item_call = callSeq s\<rparr>]"
    and "callSeq (snd (enqueueUserMessage v now t s)) = Suc (callSeq s)"
  using assms
  by (simp_all add: enqueueUserMessage_def Let_def isSessionActive_def split: version.splits)

lemma enqueue_active:
  assumes "trim t \<noteq> []" "isSessionActive s"
  shows "liveRuns (snd (enqueueUserMessage v now t s)) = liveRuns s"
    and "startWaiters (snd (enqueueUserMessage v now t s)) = startWaiters s"
    and "querySession (snd (enqueueUserMessage v now t s)) = querySession s"
    and "isProcessing (snd (enqueueUserMessage v now t s)) = isProcessing s"
  using assms
  by (auto simp: enqueueUserMessage_def Let_def isSessionActive_def split: version.splits)


lemma enqueue_shape:
  assumes "trim t \<noteq> []"
  shows "\<exists>s2. liveRuns s2 = liveRuns s \<and> isProcessing s2 = isProcessing s
           \<and> querySession s2 = querySession s \<and> resolvedPromises s2 = resolvedPromises s
           \<and> promiseSeq s2 = promiseSeq s
           \<and> snd (enqueueUserMessage v now t s) =
               (if \<not> isSessionActive s then startStreamingSession s2 else s2)
                 \<lparr>messageQueue := messageQueue s @ [\<lparr>item_text = trim t, item_call = callSeq s\<rparr>],
                  callSeq := Suc (callSeq s)\<rparr>"
proof -
  define s0 where "s0 = (case v of AgentSessionTs \<Rightarrow> s | IndexTs \<Rightarrow> s\<lparr>hasInitialPrompt := True\<rparr>)"
  define s1 where "s1 = setSessionState Running s0"
  define um where "um = \<lparr>msg_id = String_nat (messageSequence s1), role = User,
                             content = Plain (trim t), timestamp = iso now\<rparr>"
  define s2 where "s2 = broadcast ''chat:message-replay'' (VObj [(''message'', VMsg um)])
                    (s1\<lparr>messages := messages s1 @ [um],
                        messageSequence := Suc (messageSequence s1)\<rparr>)"
  have f: "liveRuns s2 = liveRuns s" "isProcessing s2 = isProcessing s"
    "querySession s2 = querySession s" "resolvedPromises s2 = resolvedPromises s"
    "promiseSeq s2 = promiseSeq s" "callSeq s2 = callSeq s" "messageQueue s2 = messageQueue s"
    by (simp_all add: s2_def s1_def s0_def split: version.splits)
  have a: "isSessionActive s2 = isSessionActive s"
    by (simp add: isSessionActive_def f)
  have "snd (enqueueUserMessage v now t s) =
               (if \<not> isSessionActive s then startStreamingSession s2 else s2)
                 \<lparr>messageQueue := messageQueue s @ [\<lparr>item_text = trim t, item_call = callSeq s\<rparr>],
                  callSeq := Suc (callSeq s)\<rparr>"
    using assms a f(6,7)
    unfolding enqueueUserMessage_def Let_def s2_def[symmetric, unfolded um_def s1_def s0_def]
    by simp
  then show ?thesis using f by blast
qed

lemma single_runtime_enqueue:
  assumes "single_runtime s"
  shows "single_runtime (snd (enqueueUserMessage v now t s))"
proof (cases "trim t = []")
  case True
  then show ?thesis using assms by (simp add: enqueue_blank)
next
  case False
  from enqueue_shape[OF False, of s v now] obtain s2 where
    f: "liveRuns s2 = liveRuns s" "isProcessing s2 = isProcessing s"
       "querySession s2 = querySession s" "resolvedPromises s2 = resolvedPromises s"
       "promiseSeq s2 = promiseSeq s"
    and e: "snd (enqueueUserMessage v now t s) =
               (if \<not> isSessionActive s then startStreamingSession s2 else s2)
                 \<lparr>messageQueue := messageQueue s @ [\<lparr>item_text = trim t, item_call = callSeq s\<rparr>],
                  callSeq := Suc (callSeq s)\<rparr>"
    by blast
  have "single_runtime s2" using assms single_runtime_cong[OF f] by simp
  then have "single_runtime (if \<not> isSessionActive s then startStreamingSession s2 else s2)"
    by (simp add: single_runtime_start)
  then show ?thesis unfolding e by (simp add: single_runtime_def)
qed

lemma new_run_enqueue:
  assumes "rp \<in> set (liveRuns (snd (enqueueUserMessage v now t s)))" "rp \<notin> set (liveRuns s)"
  shows "\<not> isProcessing s \<and> querySession s = None"
proof (cases "trim t = []")
  case True
  then show ?thesis using assms by (simp add: enqueue_blank)
next
  case False
  from enqueue_shape[OF False, of s v now] obtain s2 where
    f: "liveRuns s2 = liveRuns s" "isProcessing s2 = isProcessing s"
       "querySession s2 = querySession s"
    and e: "snd (enqueueUserMessage v now t s) =
               (if \<not> isSessionActive s then startStreamingSession s2 else s2)
                 \<lparr>messageQueue := messageQueue s @ [\<lparr>item_text = trim t, item_call = callSeq s\<rparr>],
                  callSeq := Suc (callSeq s)\<rparr>"
    by blast
  show ?thesis
  proof (rule ccontr)
    assume "\<not> (\<not> isProcessing s \<and> querySession s = None)"
    then have "isSessionActive s" by (simp add: isSessionActive_def)
    then have "liveRuns (snd (enqueueUserMessage v now t s)) = liveRuns s"
      unfolding e using f by simp
    then show False using assms by simp
  qed
qed


lemma interrupt_fields:
  "liveRuns (snd (interruptCurrentResponse s)) = liveRuns s"
  "isProcessing (snd (interruptCurrentResponse s)) = isProcessing s"
  "querySession (snd (interruptCurrentResponse s)) = querySession s"
  "resolvedPromises (snd (interruptCurrentResponse s)) = resolvedPromises s"
  "promiseSeq (snd (interruptCurrentResponse s)) = promiseSeq s"
  by (simp_all add: interruptCurrentResponse_def)

lemma interrupt_resolved_fields:
  "liveRuns (interrupt_resolved now s) = liveRuns s"
  "isProcessing (interrupt_resolved now s) = isProcessing s"
  "querySession (interrupt_resolved now s) = querySession s"
  "resolvedPromises (interrupt_resolved now s) = resolvedPromises s"
  "promiseSeq (interrupt_resolved now s) = promiseSeq s"
  using ctl_runs[OF ctl_handleMessageStopped, of now "broadcast ''chat:message-stopped'' VNull s"]
  by (simp_all add: interrupt_resolved_def Let_def)

lemma interrupt_rejected_fields:
  "liveRuns (interrupt_rejected s) = liveRuns s"
  "isProcessing (interrupt_rejected s) = isProcessing s"
  "querySession (interrupt_rejected s) = querySession s"
  "resolvedPromises (interrupt_rejected s) = resolvedPromises s"
  "promiseSeq (interrupt_rejected s) = promiseSeq s"
  by (simp_all add: interrupt_rejected_def)

lemma feed_step:
  assumes "messageGenerator_next g s = Some s' \<or> messageGenerator_timer g s = Some s'
           \<or> messageGenerator_resume g s = Some s'"
  shows "\<exists>q f r. s' = s\<lparr>messageQueue := q, feeds := f, resolvedCalls := r\<rparr>"
proof -
  have "s' = s\<lparr>messageQueue := messageQueue s', feeds := feeds s', resolvedCalls := resolvedCalls s'\<rparr>"
    using assms
    by (auto simp: messageGenerator_next_def messageGenerator_timer_def messageGenerator_resume_def
        split: option.splits feed_state.splits list.splits if_splits)
  then show ?thesis by blast
qed

lemma feed_fields:
  assumes "messageGenerator_next g s = Some s' \<or> messageGenerator_timer g s = Some s'
           \<or> messageGenerator_resume g s = Some s'"
  shows "liveRuns s' = liveRuns s" "isProcessing s' = isProcessing s" "querySession s' = querySession s"
    "resolvedPromises s' = resolvedPromises s" "promiseSeq s' = promiseSeq s"
    "hasInitialPrompt s' = hasInitialPrompt s" "childToolToParent s' = childToolToParent s"
    "shouldAbortSession s' = shouldAbortSession s" "messages s' = messages s"
    "callSeq s' = callSeq s"
  using feed_step[OF assms] by auto

lemma feed_exec:
  assumes "exec cfg a s = Some s'" "a = FeedNext g \<or> a = FeedTimer g \<or> a = FeedResume g"
  shows "liveRuns s' = liveRuns s" "isProcessing s' = isProcessing s" "querySession s' = querySession s"
    "resolvedPromises s' = resolvedPromises s" "promiseSeq s' = promiseSeq s"
    "hasInitialPrompt s' = hasInitialPrompt s" "childToolToParent s' = childToolToParent s"
    "shouldAbortSession s' = shouldAbortSession s" "messages s' = messages s"
    "callSeq s' = callSeq s"
proof -
  have "messageGenerator_next g s = Some s' \<or> messageGenerator_timer g s = Some s'
           \<or> messageGenerator_resume g s = Some s'"
    using assms by (auto simp: exec_def)
  note f = feed_fields[OF this]
  show "liveRuns s' = liveRuns s" "isProcessing s' = isProcessing s" "querySession s' = querySession s"
    "resolvedPromises s' = resolvedPromises s" "promiseSeq s' = promiseSeq s"
    "hasInitialPrompt s' = hasInitialPrompt s" "childToolToParent s' = childToolToParent s"
    "shouldAbortSession s' = shouldAbortSession s" "messages s' = messages s"
    "callSeq s' = callSeq s"
    by (rule f)+
qed

lemma resume_fields:
  "liveRuns (s\<lparr>startWaiters := w\<rparr>) = liveRuns s"
  "isProcessing (s\<lparr>startWaiters := w\<rparr>) = isProcessing s"
  "querySession (s\<lparr>startWaiters := w\<rparr>) = querySession s"
  "resolvedPromises (s\<lparr>startWaiters := w\<rparr>) = resolvedPromises s"
  "promiseSeq (s\<lparr>startWaiters := w\<rparr>) = promiseSeq s"
  by simp_all

lemma single_runtime_exec:
  assumes "single_runtime s" "exec cfg a s = Some s'"
  shows "single_runtime s'"
proof (cases a)
  case (Enqueue now t)
  then show ?thesis using assms single_runtime_enqueue by (auto simp: exec_def)
next
  case (ResumeStart p)
  have "single_runtime (s\<lparr>startWaiters := remove1 p (startWaiters s)\<rparr>)"
    using assms(1) single_runtime_cong[OF resume_fields] by simp
  then show ?thesis
    using assms ResumeStart single_runtime_guarded by (auto simp: exec_def split: if_splits)
next
  case (RuntimeMessage rp now m)
  then have live: "rp \<in> set (liveRuns s)" using assms by (auto simp: exec_def split: if_splits)
  show ?thesis
  proof (cases "loop_body cfg now m s")
    case (Continue s1)
    then have "s' = s1" using assms RuntimeMessage live by (simp add: exec_def)
    then show ?thesis using assms(1) single_runtime_ctl[OF ctl_loop_body(1)[OF Continue]] by simp
  next
    case (Break s1)
    then have e: "s' = run_finally rp s1" using assms RuntimeMessage live by (simp add: exec_def)
    have c: "ctl s1 = ctl s" by (rule ctl_loop_body(2)[OF Break])
    have "single_runtime s1" using assms(1) single_runtime_ctl[OF c] by simp
    moreover have "rp \<in> set (liveRuns s1)" using live ctl_runs(1)[OF c] by simp
    ultimately show ?thesis unfolding e by (rule single_runtime_finally)
  qed
next
  case (RuntimeEnds rp)
  then have "rp \<in> set (liveRuns s)" "s' = run_finally rp s"
    using assms by (auto simp: exec_def split: if_splits)
  then show ?thesis using assms(1) single_runtime_finally[of s rp] by simp
next
  case (RuntimeThrows rp now e)
  then have live: "rp \<in> set (liveRuns s)" and e': "s' = run_finally rp (run_catch now e s)"
    using assms by (auto simp: exec_def split: if_splits)
  have c: "ctl (run_catch now e s) = ctl s" by (rule ctl_run_catch)
  have "single_runtime (run_catch now e s)" using assms(1) single_runtime_ctl[OF c] by simp
  moreover have "rp \<in> set (liveRuns (run_catch now e s))" using live ctl_runs(1)[OF c] by simp
  ultimately show ?thesis unfolding e' by (rule single_runtime_finally)
next
  case Interrupt
  then have "s' = snd (interruptCurrentResponse s)" using assms by (simp add: exec_def)
  then show ?thesis using assms(1) single_runtime_cong[OF interrupt_fields] by simp
next
  case (InterruptResolves now)
  then have "s' = interrupt_resolved now s" using assms by (auto simp: exec_def split: if_splits)
  then show ?thesis using assms(1) single_runtime_cong[OF interrupt_resolved_fields] by simp
next
  case InterruptRejects
  then have "s' = interrupt_rejected s" using assms by (auto simp: exec_def split: if_splits)
  then show ?thesis using assms(1) single_runtime_cong[OF interrupt_rejected_fields] by simp
next
  case (FeedNext g)
  then have "a = FeedNext g \<or> a = FeedTimer g \<or> a = FeedResume g" by simp
  note f = feed_exec[OF assms(2) this]
  show ?thesis using assms(1) single_runtime_cong[OF f(1-5)] by simp
next
  case (FeedTimer g)
  then have "a = FeedNext g \<or> a = FeedTimer g \<or> a = FeedResume g" by simp
  note f = feed_exec[OF assms(2) this]
  show ?thesis using assms(1) single_runtime_cong[OF f(1-5)] by simp
next
  case (FeedResume g)
  then have "a = FeedNext g \<or> a = FeedTimer g \<or> a = FeedResume g" by simp
  note f = feed_exec[OF assms(2) this]
  show ?thesis using assms(1) single_runtime_cong[OF f(1-5)] by simp
qed

lemma single_runtime_exec_all:
  "single_runtime s \<Longrightarrow> exec_all cfg acts s = Some s' \<Longrightarrow> single_runtime s'"
  by (induction acts arbitrary: s) (auto split: option.splits dest: single_runtime_exec)

lemma single_runtime_initializeAgent:
  "single_runtime s \<Longrightarrow> single_runtime (initializeAgent v now uuid d pr s)"
proof -
  assume a: "single_runtime s"
  define s1 where "s1 = (case v of
                  AgentSessionTs \<Rightarrow>
                    s\<lparr>agentDir := d, hasInitialPrompt := (case pr of None \<Rightarrow> False | Some p \<Rightarrow> p \<noteq> [] \<and> trim p \<noteq> []), messageSequence := 0\<rparr>
                | IndexTs \<Rightarrow>
                    s\<lparr>agentDir := d, hasInitialPrompt := (case pr of None \<Rightarrow> False | Some p \<Rightarrow> p \<noteq> [] \<and> trim p \<noteq> []), systemInitInfo := None,
                      messageSequence := 0, sessionId := uuid, messages := [], messageQueue := [],
                      childToolToParent := Map.empty, logLines := []\<rparr>)"
  have "single_runtime s1" using a by (simp add: s1_def single_runtime_def split: version.splits)
  then have "single_runtime (snd (enqueueUserMessage v now (trim (or_empty pr)) s1))"
    by (rule single_runtime_enqueue)
  then show ?thesis using \<open>single_runtime s1\<close>
    unfolding initializeAgent_def Let_def s1_def by simp
qed


lemma new_run_exec:
  assumes "single_runtime s" "exec cfg a s = Some s'"
    and "rp \<in> set (liveRuns s')" "rp \<notin> set (liveRuns s)"
  shows "\<not> isProcessing s \<and> querySession s = None \<and> liveRuns s = []"
proof -
  have idle: "\<not> isProcessing s \<and> querySession s = None \<Longrightarrow> ?thesis"
    using assms(1) by (simp add: single_runtime_def)
  show ?thesis
  proof (cases a)
    case (Enqueue now t)
    then have "s' = snd (enqueueUserMessage (version cfg) now t s)" using assms by (simp add: exec_def)
    then show ?thesis using new_run_enqueue[of rp "version cfg" now t s] assms idle by simp
  next
    case (ResumeStart p)
    then have e: "s' = startStreamingSession_guarded (s\<lparr>startWaiters := remove1 p (startWaiters s)\<rparr>)"
      using assms by (auto simp: exec_def split: if_splits)
    show ?thesis
    proof (cases "isProcessing s \<or> querySession s \<noteq> None")
      case True
      then have "liveRuns s' = liveRuns s" unfolding e by (simp add: guarded_busy)
      then show ?thesis using assms by simp
    next
      case False
      then show ?thesis using idle by simp
    qed
  next
    case (RuntimeMessage rq now m)
    then have live: "rq \<in> set (liveRuns s)" using assms by (auto simp: exec_def split: if_splits)
    have "set (liveRuns s') \<subseteq> set (liveRuns s)"
    proof (cases "loop_body cfg now m s")
      case (Continue s1)
      then have "s' = s1" using assms RuntimeMessage live by (simp add: exec_def)
      then show ?thesis using ctl_runs(1)[OF ctl_loop_body(1)[OF Continue]] by simp
    next
      case (Break s1)
      then have "s' = run_finally rq s1" using assms RuntimeMessage live by (simp add: exec_def)
      then show ?thesis using ctl_runs(1)[OF ctl_loop_body(2)[OF Break]]
        by (simp add: finally_fields set_remove1_subset)
    qed
    then show ?thesis using assms by blast
  next
    case (RuntimeEnds rq)
    then have "s' = run_finally rq s" using assms by (auto simp: exec_def split: if_splits)
    then have "set (liveRuns s') \<subseteq> set (liveRuns s)"
      by (simp add: finally_fields set_remove1_subset)
    then show ?thesis using assms by blast
  next
    case (RuntimeThrows rq now e)
    then have "s' = run_finally rq (run_catch now e s)" using assms by (auto simp: exec_def split: if_splits)
    then have "set (liveRuns s') \<subseteq> set (liveRuns s)"
      using ctl_runs(1)[OF ctl_run_catch, of now e s]
      by (simp add: finally_fields set_remove1_subset)
    then show ?thesis using assms by blast
  next
    case Interrupt
    then have "s' = snd (interruptCurrentResponse s)" using assms by (simp add: exec_def)
    then show ?thesis using assms by (simp add: interrupt_fields)
  next
    case (InterruptResolves now)
    then have "s' = interrupt_resolved now s" using assms by (auto simp: exec_def split: if_splits)
    then show ?thesis using assms by (simp add: interrupt_resolved_fields)
  next
    case InterruptRejects
    then have "s' = interrupt_rejected s" using assms by (auto simp: exec_def split: if_splits)
    then show ?thesis using assms by (simp add: interrupt_rejected_fields)
  next
    case (FeedNext g)
    then have "a = FeedNext g \<or> a = FeedTimer g \<or> a = FeedResume g" by simp
    from feed_exec(1)[OF assms(2) this] show ?thesis using assms by simp
  next
    case (FeedTimer g)
    then have "a = FeedNext g \<or> a = FeedTimer g \<or> a = FeedResume g" by simp
    from feed_exec(1)[OF assms(2) this] show ?thesis using assms by simp
  next
    case (FeedResume g)
    then have "a = FeedNext g \<or> a = FeedTimer g \<or> a = FeedResume g" by simp
    from feed_exec(1)[OF assms(2) this] show ?thesis using assms by simp
  qed
qed

lemma resume_waits:
  assumes "single_runtime s" "exec cfg (ResumeStart p) s = Some s'"
  shows "p \<in> set (resolvedPromises s) \<and> p \<notin> snd ` set (liveRuns s)"
proof -
  have r: "p \<in> set (resolvedPromises s)" using assms(2) by (auto simp: exec_def split: if_splits)
  have "list_all (\<lambda>rp. snd rp \<notin> set (resolvedPromises s) \<and> snd rp < promiseSeq s) (liveRuns s)"
    using assms(1) by (simp add: single_runtime_def)
  then show ?thesis using r by (auto simp: list_all_iff)
qed

lemma start_waits:
  "sessionTerminationPromise s = Some p \<Longrightarrow>
   startStreamingSession s = s\<lparr>startWaiters := startWaiters s @ [p]\<rparr>"
  by (simp add: startStreamingSession_def)

lemma feed_resolves:
  "feeds s g = Some (AtYield item sid) \<Longrightarrow>
   exec cfg (FeedNext g) s =
     Some (s\<lparr>resolvedCalls := resolvedCalls s @ [item_call item],
             feeds := (feeds s)(g \<mapsto> generator_loop s)\<rparr>)"
  by (simp add: exec_def messageGenerator_next_def)

lemma feed_starts:
  "feeds s g = Some AtStart \<Longrightarrow>
   exec cfg (FeedNext g) s = Some (s\<lparr>feeds := (feeds s)(g \<mapsto> generator_loop s)\<rparr>)"
  by (simp add: exec_def messageGenerator_next_def)

lemma feed_takes:
  "feeds s g = Some Woken \<Longrightarrow> \<not> shouldAbortSession s \<Longrightarrow> messageQueue s = item # rest \<Longrightarrow>
   exec cfg (FeedResume g) s =
     Some (s\<lparr>messageQueue := rest, feeds := (feeds s)(g \<mapsto> AtYield item (sessionId s))\<rparr>)"
  by (simp add: exec_def messageGenerator_resume_def)

lemma enqueue_resolvedCalls:
  "resolvedCalls (snd (enqueueUserMessage v now t s)) = resolvedCalls s"
  by (simp add: enqueueUserMessage_def Let_def split: version.splits)

lemma enqueue_no_abort:
  "\<not> shouldAbortSession s \<Longrightarrow> \<not> shouldAbortSession (snd (enqueueUserMessage v now t s))"
  by (simp add: enqueueUserMessage_def Let_def startStreamingSession_def
      startStreamingSession_guarded_def split: version.splits option.splits)

lemma finally_more_fields:
  "resolvedCalls (run_finally rp s) = resolvedCalls s"
  "shouldAbortSession (run_finally rp s) = shouldAbortSession s"
  "feeds (run_finally rp s) = feeds s"
  "messageQueue (run_finally rp s) = messageQueue s"
  by (simp_all add: run_finally_def Let_def)

lemma resolvedCalls_exec:
  assumes "exec cfg a s = Some s'"
  shows "resolvedCalls s' = resolvedCalls s
         \<or> (\<exists>g item sid. a = FeedNext g \<and> feeds s g = Some (AtYield item sid)
               \<and> resolvedCalls s' = resolvedCalls s @ [item_call item])"
proof (cases a)
  case (Enqueue now t)
  then show ?thesis using assms by (auto simp: exec_def enqueue_resolvedCalls)
next
  case (ResumeStart p)
  then show ?thesis using assms by (auto simp: exec_def split: if_splits)
next
  case (RuntimeMessage rp now m)
  then show ?thesis using assms
    by (auto simp: exec_def finally_more_fields split: if_splits loop_result.splits
        dest!: ctl_loop_body ctl_runs(15))
next
  case (RuntimeEnds rp)
  then show ?thesis using assms by (auto simp: exec_def finally_more_fields split: if_splits)
next
  case (RuntimeThrows rp now e)
  then show ?thesis using assms ctl_runs(15)[OF ctl_run_catch, of now e s]
    by (auto simp: exec_def finally_more_fields split: if_splits)
next
  case Interrupt
  then show ?thesis using assms
    by (auto simp: exec_def interruptCurrentResponse_def split: if_splits)
next
  case (InterruptResolves now)
  then show ?thesis
    using assms ctl_runs(15)[OF ctl_handleMessageStopped, of now "broadcast ''chat:message-stopped'' VNull s"]
    by (auto simp: exec_def interrupt_resolved_def Let_def split: if_splits)
next
  case InterruptRejects
  then show ?thesis using assms by (auto simp: exec_def interrupt_rejected_def split: if_splits)
next
  case (FeedNext g)
  then show ?thesis using assms
    by (auto simp: exec_def messageGenerator_next_def split: option.splits feed_state.splits)
next
  case (FeedTimer g)
  then show ?thesis using assms
    by (auto simp: exec_def messageGenerator_timer_def split: option.splits feed_state.splits)
next
  case (FeedResume g)
  then show ?thesis using assms
    by (auto simp: exec_def messageGenerator_resume_def split: option.splits feed_state.splits
        list.splits if_splits)
qed

lemma resolved_only_by_feed:
  assumes "exec cfg a s = Some s'" "c \<in> set (resolvedCalls s')" "c \<notin> set (resolvedCalls s)"
  shows "\<exists>g item sid. a = FeedNext g \<and> feeds s g = Some (AtYield item sid) \<and> item_call item = c"
  using resolvedCalls_exec[OF assms(1)] assms(2,3) by auto

lemma no_abort_exec:
  assumes "\<not> shouldAbortSession s" "exec cfg a s = Some s'"
  shows "\<not> shouldAbortSession s'"
proof (cases a)
  case (Enqueue now t)
  then show ?thesis using assms enqueue_no_abort by (auto simp: exec_def)
next
  case (ResumeStart p)
  then show ?thesis using assms
    by (auto simp: exec_def startStreamingSession_guarded_def Let_def split: if_splits)
next
  case (RuntimeMessage rp now m)
  then show ?thesis using assms
    by (auto simp: exec_def finally_more_fields split: if_splits loop_result.splits
        dest!: ctl_loop_body ctl_runs(16))
next
  case (RuntimeEnds rp)
  then show ?thesis using assms by (auto simp: exec_def finally_more_fields split: if_splits)
next
  case (RuntimeThrows rp now e)
  then show ?thesis using assms ctl_runs(16)[OF ctl_run_catch, of now e s]
    by (auto simp: exec_def finally_more_fields split: if_splits)
next
  case Interrupt
  then show ?thesis using assms
    by (auto simp: exec_def interruptCurrentResponse_def split: if_splits)
next
  case (InterruptResolves now)
  then show ?thesis
    using assms ctl_runs(16)[OF ctl_handleMessageStopped, of now "broadcast ''chat:message-stopped'' VNull s"]
    by (auto simp: exec_def interrupt_resolved_def Let_def split: if_splits)
next
  case InterruptRejects
  then show ?thesis using assms by (auto simp: exec_def interrupt_rejected_def split: if_splits)
next
  case (FeedNext g)
  then have "a = FeedNext g \<or> a = FeedTimer g \<or> a = FeedResume g" by simp
  from feed_exec(8)[OF assms(2) this] show ?thesis using assms by simp
next
  case (FeedTimer g)
  then have "a = FeedNext g \<or> a = FeedTimer g \<or> a = FeedResume g" by simp
  from feed_exec(8)[OF assms(2) this] show ?thesis using assms by simp
next
  case (FeedResume g)
  then have "a = FeedNext g \<or> a = FeedTimer g \<or> a = FeedResume g" by simp
  from feed_exec(8)[OF assms(2) this] show ?thesis using assms by simp
qed

lemma no_abort_exec_all:
  "\<not> shouldAbortSession s \<Longrightarrow> exec_all cfg acts s = Some s' \<Longrightarrow> \<not> shouldAbortSession s'"
  by (induction acts arbitrary: s) (auto split: option.splits dest: no_abort_exec)

lemma no_abort_initializeAgent:
  "\<not> shouldAbortSession (initializeAgent v now uuid d pr initial_session)"
  using enqueue_no_abort
  by (simp add: initializeAgent_def Let_def initial_session_def split: version.splits)

lemma runtime_pulls_simps:
  "runtime_pulls g 0 = [FeedNext g]"
  "runtime_pulls g (Suc n) = FeedNext g # FeedResume g # runtime_pulls g n"
  by (simp_all add: runtime_pulls_def)

lemma pull_wakes:
  assumes "\<not> shouldAbortSession s" "awaiting_pull (feeds s g)" "messageQueue s = x # q"
  shows "\<exists>s1. exec cfg (FeedNext g) s = Some s1 \<and> feeds s1 g = Some Woken
           \<and> \<not> shouldAbortSession s1 \<and> messageQueue s1 = x # q \<and> sessionId s1 = sessionId s
           \<and> set (resolvedCalls s1) = set (resolvedCalls s) \<union> set (pending_calls (feeds s g))"
  using assms
  by (auto simp: awaiting_pull_def pending_calls_def exec_def messageGenerator_next_def
      generator_loop_def checkQueue_def split: option.splits feed_state.splits)

lemma pull_empty:
  assumes "awaiting_pull (feeds s g)" "messageQueue s = []"
  shows "\<exists>s1. exec cfg (FeedNext g) s = Some s1 \<and> messageQueue s1 = []
           \<and> set (resolvedCalls s1) = set (resolvedCalls s) \<union> set (pending_calls (feeds s g))"
  using assms
  by (auto simp: awaiting_pull_def pending_calls_def exec_def messageGenerator_next_def
      split: option.splits feed_state.splits)

lemma pulls_resolve:
  assumes "\<not> shouldAbortSession s" "awaiting_pull (feeds s g)" "messageQueue s = q"
  shows "\<exists>s'. exec_all cfg (runtime_pulls g (length q)) s = Some s'
           \<and> set (pending_calls (feeds s g)) \<union> item_call ` set q \<union> set (resolvedCalls s)
               \<subseteq> set (resolvedCalls s')
           \<and> messageQueue s' = []"
  using assms
proof (induction q arbitrary: s)
  case Nil
  from pull_empty[OF Nil(2,3), of cfg] show ?case by (auto simp: runtime_pulls_simps)
next
  case (Cons x q)
  from pull_wakes[OF Cons.prems, of cfg] obtain s1 where
    e1: "exec cfg (FeedNext g) s = Some s1" and w: "feeds s1 g = Some Woken"
    and a1: "\<not> shouldAbortSession s1" and q1: "messageQueue s1 = x # q"
    and r1: "set (resolvedCalls s1) = set (resolvedCalls s) \<union> set (pending_calls (feeds s g))"
    by blast
  define s2 where "s2 = s1\<lparr>messageQueue := q, feeds := (feeds s1)(g \<mapsto> AtYield x (sessionId s1))\<rparr>"
  have e2: "exec cfg (FeedResume g) s1 = Some s2"
    unfolding s2_def by (rule feed_takes[OF w a1 q1])
  have p2: "\<not> shouldAbortSession s2" "awaiting_pull (feeds s2 g)" "messageQueue s2 = q"
    "pending_calls (feeds s2 g) = [item_call x]" "resolvedCalls s2 = resolvedCalls s1"
    using a1 by (simp_all add: s2_def awaiting_pull_def pending_calls_def)
  from Cons.IH[OF p2(1-3)] obtain s' where
    e3: "exec_all cfg (runtime_pulls g (length q)) s2 = Some s'"
    and r3: "set (pending_calls (feeds s2 g)) \<union> item_call ` set q \<union> set (resolvedCalls s2)
               \<subseteq> set (resolvedCalls s')"
    and q3: "messageQueue s' = []"
    by blast
  have "exec_all cfg (runtime_pulls g (length (x # q))) s = Some s'"
    using e1 e2 e3 by (simp add: runtime_pulls_simps)
  moreover have "set (pending_calls (feeds s g)) \<union> item_call ` set (x # q) \<union> set (resolvedCalls s)
               \<subseteq> set (resolvedCalls s')"
    using r3 r1 p2(4,5) by auto
  ultimately show ?case using q3 by blast
qed

lemma enqueue_then_pulls:
  assumes "trim t \<noteq> []" "\<not> shouldAbortSession s"
    and "awaiting_pull (feeds (snd (enqueueUserMessage (version cfg) now t s)) g)"
  shows "\<exists>s'. exec_all cfg (Enqueue now t # runtime_pulls g (Suc (length (messageQueue s)))) s = Some s'
           \<and> callSeq s \<in> set (resolvedCalls s')"
proof -
  define s1 where "s1 = snd (enqueueUserMessage (version cfg) now t s)"
  have q: "messageQueue s1 = messageQueue s @ [\<lparr>item_text = trim t, item_call = callSeq s\<rparr>]"
    unfolding s1_def by (rule enqueue_accepts(3)[OF assms(1)])
  have a: "\<not> shouldAbortSession s1" unfolding s1_def by (rule enqueue_no_abort[OF assms(2)])
  from pulls_resolve[OF a assms(3)[folded s1_def] refl, of cfg] obtain s' where
    e: "exec_all cfg (runtime_pulls g (length (messageQueue s1))) s1 = Some s'"
    and r: "item_call ` set (messageQueue s1) \<subseteq> set (resolvedCalls s')"
    by blast
  have "exec_all cfg (Enqueue now t # runtime_pulls g (Suc (length (messageQueue s)))) s = Some s'"
    using e q by (simp add: exec_def s1_def)
  moreover have "callSeq s \<in> set (resolvedCalls s')" using r q by auto
  ultimately show ?thesis by blast
qed

text \<open>
  Claim C1, as amended. At most one runtime session is ever live. From the state
  \<^verbatim>\<open>initializeAgent\<close> leaves, every sequence of actions (enqueue and interrupt calls, runtime
  messages, ends and failures of a run, steps of the message generators, resumptions of
  suspended functions) leads to a state with at most one live run, in which the abort flag
  is not set. A call of \<^verbatim>\<open>enqueueUserMessage\<close> with a text that is not blank appends the
  user message to the transcript, puts its item on the queue and is left waiting (it has
  no failing path); while a session is active it starts no run and no start request. A run
  appears only in a step taken from a state with no handle and no run processing. A start
  request made while a termination promise is stored waits on that promise, and it resumes
  only after the promise is resolved, when the run the promise belongs to is no longer
  live. The call is resolved when a generator that has yielded its item is asked for the
  next message, and by no other step: a woken generator takes the head of the queue and
  yields it, and when the runtime keeps asking a generator for messages, the call made
  before is resolved after one round per queued item.
\<close>

theorem single_runtime_session:
  "(exec_all cfg acts (initializeAgent (version cfg) now0 uuid dir prompt initial_session) = Some s
      \<longrightarrow> single_runtime s \<and> length (liveRuns s) \<le> 1 \<and> \<not> shouldAbortSession s)
   \<and> (single_runtime s1 \<and> trim t \<noteq> [] \<longrightarrow>
        fst (enqueueUserMessage v now t s1) = AwaitingFeed (callSeq s1)
        \<and> messages (snd (enqueueUserMessage v now t s1)) = messages s1 @
             [\<lparr>msg_id = String_nat (messageSequence s1), role = User, content = Plain (trim t),
               timestamp = iso now\<rparr>]
        \<and> messageQueue (snd (enqueueUserMessage v now t s1)) = messageQueue s1 @
             [\<lparr>item_text = trim t, item_call = callSeq s1\<rparr>]
        \<and> single_runtime (snd (enqueueUserMessage v now t s1))
        \<and> (isSessionActive s1 \<longrightarrow>
              liveRuns (snd (enqueueUserMessage v now t s1)) = liveRuns s1
              \<and> startWaiters (snd (enqueueUserMessage v now t s1)) = startWaiters s1
              \<and> querySession (snd (enqueueUserMessage v now t s1)) = querySession s1))
   \<and> (single_runtime s1 \<and> exec cfg a s1 = Some s2 \<and> rp \<in> set (liveRuns s2) \<and> rp \<notin> set (liveRuns s1)
        \<longrightarrow> \<not> isProcessing s1 \<and> querySession s1 = None \<and> liveRuns s1 = [])
   \<and> (sessionTerminationPromise s1 = Some p \<longrightarrow>
        startStreamingSession s1 = s1\<lparr>startWaiters := startWaiters s1 @ [p]\<rparr>)
   \<and> (single_runtime s1 \<and> exec cfg (ResumeStart p) s1 = Some s2 \<longrightarrow>
        p \<in> set (resolvedPromises s1) \<and> p \<notin> snd ` set (liveRuns s1))
   \<and> (feeds s1 g = Some (AtYield item sid) \<longrightarrow>
        exec cfg (FeedNext g) s1 =
          Some (s1\<lparr>resolvedCalls := resolvedCalls s1 @ [item_call item],
                   feeds := (feeds s1)(g \<mapsto> generator_loop s1)\<rparr>))
   \<and> (exec cfg a s1 = Some s2 \<and> c \<in> set (resolvedCalls s2) \<and> c \<notin> set (resolvedCalls s1) \<longrightarrow>
        (\<exists>g' item' sid'. a = FeedNext g' \<and> feeds s1 g' = Some (AtYield item' sid') \<and> item_call item' = c))
   \<and> (feeds s1 g = Some Woken \<and> \<not> shouldAbortSession s1 \<and> messageQueue s1 = item # rest \<longrightarrow>
        exec cfg (FeedResume g) s1 =
          Some (s1\<lparr>messageQueue := rest, feeds := (feeds s1)(g \<mapsto> AtYield item (sessionId s1))\<rparr>))
   \<and> (trim t \<noteq> [] \<and> \<not> shouldAbortSession s1
        \<and> awaiting_pull (feeds (snd (enqueueUserMessage (version cfg) now t s1)) g) \<longrightarrow>
        (\<exists>s'. exec_all cfg (Enqueue now t # runtime_pulls g (Suc (length (messageQueue s1)))) s1 = Some s'
           \<and> callSeq s1 \<in> set (resolvedCalls s')))"
proof (intro conjI impI)
  assume e: "exec_all cfg acts (initializeAgent (version cfg) now0 uuid dir prompt initial_session) = Some s"
  then show "single_runtime s"
    using single_runtime_exec_all single_runtime_initializeAgent[OF single_runtime_initial] by blast
  then show "length (liveRuns s) \<le> 1" by (simp add: single_runtime_def)
  show "\<not> shouldAbortSession s"
    using no_abort_exec_all[OF no_abort_initializeAgent e] .
next
  assume a: "single_runtime s1 \<and> trim t \<noteq> []"
  then show "fst (enqueueUserMessage v now t s1) = AwaitingFeed (callSeq s1)"
    by (simp add: enqueue_accepts)
  show "messages (snd (enqueueUserMessage v now t s1)) = messages s1 @
             [\<lparr>msg_id = String_nat (messageSequence s1), role = User, content = Plain (trim t),
               timestamp = iso now\<rparr>]"
    using a by (simp add: enqueue_accepts)
  show "messageQueue (snd (enqueueUserMessage v now t s1)) = messageQueue s1 @
             [\<lparr>item_text = trim t, item_call = callSeq s1\<rparr>]"
    using a by (simp add: enqueue_accepts)
  show "single_runtime (snd (enqueueUserMessage v now t s1))"
    using a by (simp add: single_runtime_enqueue)
  assume b: "isSessionActive s1"
  show "liveRuns (snd (enqueueUserMessage v now t s1)) = liveRuns s1"
    using a b by (simp add: enqueue_active)
  show "startWaiters (snd (enqueueUserMessage v now t s1)) = startWaiters s1"
    using a b by (simp add: enqueue_active)
  show "querySession (snd (enqueueUserMessage v now t s1)) = querySession s1"
    using a b by (simp add: enqueue_active)
next
  assume a: "single_runtime s1 \<and> exec cfg a s1 = Some s2 \<and> rp \<in> set (liveRuns s2) \<and> rp \<notin> set (liveRuns s1)"
  then have n: "\<not> isProcessing s1 \<and> querySession s1 = None \<and> liveRuns s1 = []"
    using new_run_exec by blast
  from n show "\<not> isProcessing s1" by simp
  from n show "querySession s1 = None" by simp
  from n show "liveRuns s1 = []" by simp
next
  assume "sessionTerminationPromise s1 = Some p"
  then show "startStreamingSession s1 = s1\<lparr>startWaiters := startWaiters s1 @ [p]\<rparr>"
    by (rule start_waits)
next
  assume a: "single_runtime s1 \<and> exec cfg (ResumeStart p) s1 = Some s2"
  then have r: "p \<in> set (resolvedPromises s1) \<and> p \<notin> snd ` set (liveRuns s1)"
    using resume_waits by blast
  from r show "p \<in> set (resolvedPromises s1)" by simp
  from r show "p \<notin> snd ` set (liveRuns s1)" by simp
next
  assume "feeds s1 g = Some (AtYield item sid)"
  then show "exec cfg (FeedNext g) s1 =
          Some (s1\<lparr>resolvedCalls := resolvedCalls s1 @ [item_call item],
                   feeds := (feeds s1)(g \<mapsto> generator_loop s1)\<rparr>)"
    by (rule feed_resolves)
next
  assume "exec cfg a s1 = Some s2 \<and> c \<in> set (resolvedCalls s2) \<and> c \<notin> set (resolvedCalls s1)"
  then show "\<exists>g' item' sid'. a = FeedNext g' \<and> feeds s1 g' = Some (AtYield item' sid') \<and> item_call item' = c"
    using resolved_only_by_feed by blast
next
  assume "feeds s1 g = Some Woken \<and> \<not> shouldAbortSession s1 \<and> messageQueue s1 = item # rest"
  then show "exec cfg (FeedResume g) s1 =
          Some (s1\<lparr>messageQueue := rest, feeds := (feeds s1)(g \<mapsto> AtYield item (sessionId s1))\<rparr>)"
    using feed_takes by blast
next
  assume "trim t \<noteq> [] \<and> \<not> shouldAbortSession s1
        \<and> awaiting_pull (feeds (snd (enqueueUserMessage (version cfg) now t s1)) g)"
  then show "\<exists>s'. exec_all cfg (Enqueue now t # runtime_pulls g (Suc (length (messageQueue s1)))) s1 = Some s'
           \<and> callSeq s1 \<in> set (resolvedCalls s')"
    using enqueue_then_pulls by blast
qed

text \<open>
  Claim C1 as stated fails in its part on the call resolving: when the run fails after
  its generator has yielded the item of a call and before the runtime asks that generator
  again, the call is left pending. The run is over, the queue is empty and the call is
  not resolved; a later call, served by the next run, is resolved while the first stays
  pending.
\<close>

theorem single_runtime_session_counterexample:
  "map_option liveRuns (failed_run AgentSessionTs) = Some []
   \<and> map_option messageQueue (failed_run AgentSessionTs) = Some []
   \<and> map_option resolvedCalls (failed_run AgentSessionTs) = Some []
   \<and> map_option sessionState (failed_run AgentSessionTs) = Some Error
   \<and> map_option liveRuns (after_failed_run AgentSessionTs) = Some [(1, 1)]
   \<and> map_option messageQueue (after_failed_run AgentSessionTs) = Some []
   \<and> map_option resolvedCalls (after_failed_run AgentSessionTs) = Some [1]"
  by (simp add: failed_run_def after_failed_run_def eval_defs messageGenerator_next_def
      messageGenerator_resume_def generator_loop_def checkQueue_def)

text \<open>
  The generators of ended runs go on: \<^verbatim>\<open>shouldAbortSession\<close> is never set, so a generator
  that was waiting for the queue when its run ended still takes the next message that is
  enqueued when its timer fires first. The message is then yielded to the runtime of the
  ended run, and the generator of the live run has nothing to take.
\<close>

lemma ended_run_generator_takes_message:
  "map_option liveRuns (waiting_generator_wakes AgentSessionTs) = Some [(1, 1)]
   \<and> map_option messageQueue (waiting_generator_wakes AgentSessionTs) = Some []
   \<and> map_option resolvedCalls (waiting_generator_wakes AgentSessionTs) = Some [0]
   \<and> map_option (\<lambda>s. feeds s 0) (waiting_generator_wakes AgentSessionTs)
        = Some (Some (AtYield \<lparr>item_text = ''again'', item_call = 1\<rparr> []))
   \<and> map_option (\<lambda>s. feeds s 1) (waiting_generator_wakes AgentSessionTs) = Some (Some AtStart)"
  by (simp add: waiting_generator_wakes_def eval_defs messageGenerator_next_def
      messageGenerator_resume_def messageGenerator_timer_def generator_loop_def checkQueue_def)

theorem single_runtime_session_witness:
  "(\<exists>s. exec_all (sample_config AgentSessionTs)
      [Enqueue (at 1001) ''hello'', Enqueue (at 1002) ''again'',
       RuntimeThrows (0, 0) (at 1003) (ErrorInstance ''boom''),
       Enqueue (at 1004) ''third'', ResumeStart 0]
      (sample_start AgentSessionTs) = Some s
     \<and> single_runtime s \<and> liveRuns s = [(1, 1)] \<and> length (messages s) = 4)
   \<and> (\<exists>s'. exec_all (sample_config AgentSessionTs)
         [Enqueue (at 1001) ''hello'', FeedNext 0, FeedResume 0, FeedNext 0]
         (sample_start AgentSessionTs) = Some s'
       \<and> 0 \<in> set (resolvedCalls s'))"
proof -
  have "\<exists>s. exec_all (sample_config AgentSessionTs)
      [Enqueue (at 1001) ''hello'', Enqueue (at 1002) ''again'',
       RuntimeThrows (0, 0) (at 1003) (ErrorInstance ''boom''),
       Enqueue (at 1004) ''third'', ResumeStart 0]
      (sample_start AgentSessionTs) = Some s \<and> liveRuns s = [(1, 1)] \<and> length (messages s) = 4"
    by (simp add: eval_defs)
  then obtain s where e: "exec_all (sample_config AgentSessionTs)
      [Enqueue (at 1001) ''hello'', Enqueue (at 1002) ''again'',
       RuntimeThrows (0, 0) (at 1003) (ErrorInstance ''boom''),
       Enqueue (at 1004) ''third'', ResumeStart 0]
      (sample_start AgentSessionTs) = Some s" and l: "liveRuns s = [(1, 1)]" "length (messages s) = 4"
    by blast
  have v: "version (sample_config AgentSessionTs) = AgentSessionTs" by (simp add: sample_config_def)
  have e': "exec_all (sample_config AgentSessionTs)
      [Enqueue (at 1001) ''hello'', Enqueue (at 1002) ''again'',
       RuntimeThrows (0, 0) (at 1003) (ErrorInstance ''boom''),
       Enqueue (at 1004) ''third'', ResumeStart 0]
      (initializeAgent (version (sample_config AgentSessionTs)) (at 1000) ''uuid-1'' ''/ws'' None
         initial_session) = Some s"
    using e unfolding v sample_start_def .
  have 1: "single_runtime s \<and> length (liveRuns s) \<le> 1 \<and> \<not> shouldAbortSession s"
    by (rule single_runtime_session[THEN conjunct1, rule_format, OF e'])
  have h: "trim ''hello'' \<noteq> [] \<and> \<not> shouldAbortSession (sample_start AgentSessionTs)
        \<and> awaiting_pull (feeds (snd (enqueueUserMessage (version (sample_config AgentSessionTs))
             (at 1001) ''hello'' (sample_start AgentSessionTs))) 0)"
    by (simp add: eval_defs awaiting_pull_def)
  have q: "messageQueue (sample_start AgentSessionTs) = []" by (simp add: eval_defs)
  have "\<exists>s'. exec_all (sample_config AgentSessionTs)
          (Enqueue (at 1001) ''hello'' #
           runtime_pulls 0 (Suc (length (messageQueue (sample_start AgentSessionTs)))))
          (sample_start AgentSessionTs) = Some s'
        \<and> callSeq (sample_start AgentSessionTs) \<in> set (resolvedCalls s')"
    by (rule single_runtime_session[THEN conjunct2, THEN conjunct2, THEN conjunct2, THEN conjunct2,
          THEN conjunct2, THEN conjunct2, THEN conjunct2, THEN conjunct2, rule_format, OF h])
  moreover have "callSeq (sample_start AgentSessionTs) = 0" by (simp add: eval_defs)
  ultimately have 2: "\<exists>s'. exec_all (sample_config AgentSessionTs)
         [Enqueue (at 1001) ''hello'', FeedNext 0, FeedResume 0, FeedNext 0]
         (sample_start AgentSessionTs) = Some s' \<and> 0 \<in> set (resolvedCalls s')"
    by (simp add: q runtime_pulls_def)
  show ?thesis using e l 1 2 by blast
qed


subsection \<open>Blank input\<close>

text \<open>
  Claim C8. For a text that is empty after trimming, the enqueue operation fails locally
  and leaves the session as it is: the \<^verbatim>\<open>/chat/send\<close> handler answers 400 with
  \<^verbatim>\<open>Message cannot be empty.\<close> without calling the session, and \<^verbatim>\<open>enqueueUserMessage\<close>
  itself returns at once with the state unchanged, so no message is appended, the session
  state value stays, nothing is broadcast and nothing is pushed onto the feed.
\<close>

theorem blank_enqueue_rejected:
  "trim t = [] \<longrightarrow>
     enqueueUserMessage v now t s = (ReturnedAtOnce, s)
     \<and> exec cfg (Enqueue now t) s = Some s
     \<and> chat_send v now (Payload (Some t)) s = (Response 400 False (Some ''Message cannot be empty.''), s)
     \<and> chat_send v now (Payload None) s = (Response 400 False (Some ''Message cannot be empty.''), s)
     \<and> messages (snd (enqueueUserMessage v now t s)) = messages s
     \<and> sessionState (snd (enqueueUserMessage v now t s)) = sessionState s
     \<and> broadcasts (snd (enqueueUserMessage v now t s)) = broadcasts s
     \<and> messageQueue (snd (enqueueUserMessage v now t s)) = messageQueue s"
  by (simp add: enqueue_blank exec_def chat_send_def or_empty_def trim_def)

theorem blank_enqueue_rejected_witness:
  "trim [CHR 0x20, CHR 0x09, LF] = []
   \<and> enqueueUserMessage IndexTs (at 1002) [CHR 0x20, CHR 0x09, LF] (sample_running IndexTs)
       = (ReturnedAtOnce, sample_running IndexTs)
   \<and> chat_send IndexTs (at 1002) (Payload (Some [CHR 0x20, CHR 0x09, LF])) (sample_running IndexTs)
       = (Response 400 False (Some ''Message cannot be empty.''), sample_running IndexTs)"
  using blank_enqueue_rejected[of "[CHR 0x20, CHR 0x09, LF]" IndexTs "at 1002" "sample_running IndexTs"]
  by (simp add: trim_def isWhiteSpace_def LF_def)


subsection \<open>Interruption\<close>

lemma interrupt_no_handle: "querySession s = None \<Longrightarrow> interruptCurrentResponse s = (Returned False, s)"
  by (simp add: interruptCurrentResponse_def)

lemma interrupt_in_flight:
  "querySession s \<noteq> None \<Longrightarrow> isInterruptingResponse s \<Longrightarrow> interruptCurrentResponse s = (Returned True, s)"
  by (simp add: interruptCurrentResponse_def)

lemma interrupt_repeat:
  "querySession s \<noteq> None \<Longrightarrow> isInterruptingResponse s \<Longrightarrow> exec_all cfg (replicate n Interrupt) s = Some s"
  by (induction n) (simp_all add: exec_def interrupt_in_flight)

lemma interrupt_first:
  assumes "querySession s \<noteq> None" "\<not> isInterruptingResponse s"
  shows "fst (interruptCurrentResponse s) = AwaitingRuntime"
    and "interruptCalls (snd (interruptCurrentResponse s)) = Suc (interruptCalls s)"
    and "isInterruptingResponse (snd (interruptCurrentResponse s))"
    and "querySession (snd (interruptCurrentResponse s)) = querySession s"
    and "messages (snd (interruptCurrentResponse s)) = messages s"
    and "broadcasts (snd (interruptCurrentResponse s)) = broadcasts s"
  using assms by (simp_all add: interruptCurrentResponse_def)

lemma interrupt_in_flight_unchanged:
  "isInterruptingResponse s \<Longrightarrow>
   interruptCurrentResponse s = (Returned (querySession s \<noteq> None), s)"
  by (simp add: interruptCurrentResponse_def)

lemma interrupt_repeat_any:
  "isInterruptingResponse s \<Longrightarrow> exec_all cfg (replicate n Interrupt) s = Some s"
  by (induction n) (simp_all add: exec_def interrupt_in_flight_unchanged)

text \<open>
  Claim C4, as amended. \<^verbatim>\<open>interruptCurrentResponse\<close> without a live handle returns \<^verbatim>\<open>false\<close>
  and changes nothing. While an interrupt is in flight a further call changes nothing,
  however often it is repeated: the runtime is interrupted once, and the calls made
  meanwhile neither broadcast nor touch the transcript. Such a call returns \<^verbatim>\<open>true\<close> while
  the handle is live, and \<^verbatim>\<open>false\<close> when the run has ended in the meantime, because the
  handle is tested first.
\<close>

theorem interrupt_idempotent:
  "(querySession s = None \<longrightarrow> interruptCurrentResponse s = (Returned False, s))
   \<and> (querySession s \<noteq> None \<and> isInterruptingResponse s \<longrightarrow>
        interruptCurrentResponse s = (Returned True, s)
        \<and> exec_all cfg (replicate n Interrupt) s = Some s)
   \<and> (querySession s \<noteq> None \<and> \<not> isInterruptingResponse s \<longrightarrow>
        fst (interruptCurrentResponse s) = AwaitingRuntime
        \<and> interruptCalls (snd (interruptCurrentResponse s)) = Suc (interruptCalls s)
        \<and> messages (snd (interruptCurrentResponse s)) = messages s
        \<and> broadcasts (snd (interruptCurrentResponse s)) = broadcasts s
        \<and> exec_all cfg (replicate n Interrupt) (snd (interruptCurrentResponse s))
            = Some (snd (interruptCurrentResponse s)))
   \<and> (isInterruptingResponse s \<longrightarrow>
        interruptCurrentResponse s = (Returned (querySession s \<noteq> None), s)
        \<and> exec_all cfg (replicate n Interrupt) s = Some s)"
  using interrupt_no_handle[of s] interrupt_in_flight[of s] interrupt_repeat[of s cfg n]
    interrupt_first[of s] interrupt_repeat[of "snd (interruptCurrentResponse s)" cfg n]
    interrupt_in_flight_unchanged[of s] interrupt_repeat_any[of s cfg n]
  by auto

text \<open>
  Claim C4 as stated fails: when the run ends while an interrupt is in flight, a further
  interrupt call returns \<^verbatim>\<open>false\<close>.
\<close>

theorem interrupt_idempotent_counterexample:
  "exec_all (sample_config AgentSessionTs)
      [Enqueue (at 1001) ''hello'', Interrupt, RuntimeEnds (0, 0)] (sample_start AgentSessionTs)
     = Some (ended_while_interrupting AgentSessionTs)
   \<and> isInterruptingResponse (ended_while_interrupting AgentSessionTs)
   \<and> interruptsInFlight (ended_while_interrupting AgentSessionTs) = 1
   \<and> interruptCurrentResponse (ended_while_interrupting AgentSessionTs)
       = (Returned False, ended_while_interrupting AgentSessionTs)"
  by (simp add: ended_while_interrupting_def eval_more)

theorem interrupt_idempotent_witness:
  "querySession (sample_start AgentSessionTs) = None
   \<and> interruptCurrentResponse (sample_start AgentSessionTs) = (Returned False, sample_start AgentSessionTs)
   \<and> querySession (sample_running AgentSessionTs) = Some 0
   \<and> \<not> isInterruptingResponse (sample_running AgentSessionTs)
   \<and> interruptCalls (snd (interruptCurrentResponse (sample_running AgentSessionTs))) = 1
   \<and> exec_all (sample_config AgentSessionTs) (replicate 3 Interrupt)
        (snd (interruptCurrentResponse (sample_running AgentSessionTs)))
       = Some (snd (interruptCurrentResponse (sample_running AgentSessionTs)))"
proof -
  have q: "querySession (sample_start AgentSessionTs) = None"
    "querySession (sample_running AgentSessionTs) = Some 0"
    "\<not> isInterruptingResponse (sample_running AgentSessionTs)"
    "interruptCalls (sample_running AgentSessionTs) = 0"
    by (simp_all add: eval_more)
  show ?thesis
    using q interrupt_idempotent[of "sample_start AgentSessionTs" "sample_config AgentSessionTs" 3]
      interrupt_idempotent[of "sample_running AgentSessionTs" "sample_config AgentSessionTs" 3]
    by simp
qed


subsection \<open>Errors of the event stream\<close>

lemma handleMessageError_fields:
  "messages (handleMessageError now e s) = messages s @
     [\<lparr>msg_id = String_nat (messageSequence s), role = Assistant,
       content = Plain (''Error: '' @ e), timestamp = iso now\<rparr>]"
  "sessionState (handleMessageError now e s) = Idle"
  "broadcasts (handleMessageError now e s) = broadcasts s @
     (if sessionState s = Idle then [] else [(''chat:status'', VObj [(''sessionState'', VState Idle)])])"
  "isStreamingMessage (handleMessageError now e s) = False"
  "messageSequence (handleMessageError now e s) = Suc (messageSequence s)"
  by (simp_all add: handleMessageError_def Let_def setSessionState_def broadcast_def)

lemma run_catch_fields:
  "messages (run_catch now th s) = messages s @
     [\<lparr>msg_id = String_nat (messageSequence s), role = Assistant,
       content = Plain (''Error: '' @ error_message_of th), timestamp = iso now\<rparr>]"
  "sessionState (run_catch now th s) = Error"
  "broadcasts (run_catch now th s) = broadcasts s
     @ [(''chat:message-error'', VStr (error_message_of th))]
     @ (if sessionState s = Idle then [] else [(''chat:status'', VObj [(''sessionState'', VState Idle)])])
     @ [(''chat:status'', VObj [(''sessionState'', VState Error)])]"
  by (simp_all add: run_catch_def handleMessageError_fields setSessionState_def broadcast_def)

lemma run_finally_after_error:
  "sessionState s = Error \<Longrightarrow>
   messages (run_finally rp s) = messages s \<and> sessionState (run_finally rp s) = Error
   \<and> broadcasts (run_finally rp s) = broadcasts s
   \<and> isProcessing (run_finally rp s) = False \<and> querySession (run_finally rp s) = None"
  by (simp add: run_finally_def Let_def)

text \<open>
  Claim C3. When the event stream of a live run raises, the \<^verbatim>\<open>catch\<close> and \<^verbatim>\<open>finally\<close>
  blocks append exactly one assistant message whose content is \<^verbatim>\<open>Error: \<close> followed by
  the error message, after all the messages that were there, which stay as they were; they
  broadcast \<^verbatim>\<open>chat:message-error\<close> with the error message (and the status changes), and
  leave the session in state \<^verbatim>\<open>error\<close> with the handle released.
\<close>

theorem stream_error_appends_message:
  "rp \<in> set (liveRuns s) \<longrightarrow>
     exec cfg (RuntimeThrows rp now th) s = Some (run_finally rp (run_catch now th s))
     \<and> messages (run_finally rp (run_catch now th s)) = messages s @
          [\<lparr>msg_id = String_nat (messageSequence s), role = Assistant,
            content = Plain (''Error: '' @ error_message_of th), timestamp = iso now\<rparr>]
     \<and> error_message_of (ErrorInstance msg) = msg
     \<and> broadcasts (run_finally rp (run_catch now th s)) = broadcasts s
          @ [(''chat:message-error'', VStr (error_message_of th))]
          @ (if sessionState s = Idle then [] else [(''chat:status'', VObj [(''sessionState'', VState Idle)])])
          @ [(''chat:status'', VObj [(''sessionState'', VState Error)])]
     \<and> sessionState (run_finally rp (run_catch now th s)) = Error
     \<and> isProcessing (run_finally rp (run_catch now th s)) = False
     \<and> querySession (run_finally rp (run_catch now th s)) = None"
  using run_finally_after_error[of "run_catch now th s" rp]
  by (simp add: exec_def run_catch_fields error_message_of_def)

theorem stream_error_appends_message_witness:
  "(0, 0) \<in> set (liveRuns (sample_running AgentSessionTs))
   \<and> (\<exists>s'. exec (sample_config AgentSessionTs) (RuntimeThrows (0, 0) (at 1003) (ErrorInstance ''boom''))
              (sample_running AgentSessionTs) = Some s'
        \<and> messages s' =
            [\<lparr>msg_id = ''0'', role = User, content = Plain ''hello'', timestamp = ''T1001''\<rparr>,
             \<lparr>msg_id = ''1'', role = Assistant, content = Plain ''Error: boom'', timestamp = ''T1003''\<rparr>]
        \<and> sessionState s' = Error)"
proof -
  have l: "(0, 0) \<in> set (liveRuns (sample_running AgentSessionTs))"
    "messages (sample_running AgentSessionTs) =
       [\<lparr>msg_id = ''0'', role = User, content = Plain ''hello'', timestamp = ''T1001''\<rparr>]"
    "messageSequence (sample_running AgentSessionTs) = 1"
    by (simp_all add: eval_more)
  show ?thesis
    using l stream_error_appends_message[of "(0, 0)" "sample_running AgentSessionTs"
        "sample_config AgentSessionTs" "at 1003" "ErrorInstance ''boom''" "''boom''"]
    by (simp add: error_message_of_def at_def String_nat.simps digit_char_def)
qed


subsection \<open>Open thinking blocks at an interrupt\<close>

lemma handleMessageStopped_blocks:
  assumes "messages s \<noteq> []" "role (last (messages s)) = Assistant"
    "content (last (messages s)) = Blocks bs"
  shows "messages (handleMessageStopped now s) =
           butlast (messages s) @ [(last (messages s))\<lparr>content := Blocks (map (close_thinking now) bs)\<rparr>]"
  using assms by (simp add: handleMessageStopped_def Let_def update_last_message_def)

lemma close_thinking_open:
  assumes "btype b = ThinkingBlock" "isComplete b \<noteq> Some True" "thinkingStartedAt b = Some t0" "t0 \<noteq> 0"
  shows "close_thinking now b = b\<lparr>isComplete := Some True, thinkingDurationMs := Some (ms now - t0)\<rparr>"
  using assms by (simp add: close_thinking_def)

lemma close_thinking_closes:
  "btype (close_thinking now b) = btype b"
  "btype b = ThinkingBlock \<Longrightarrow> isComplete (close_thinking now b) = Some True"
  "thinking (close_thinking now b) = thinking b"
  by (simp_all add: close_thinking_def)

lemma interrupt_resolved_messages:
  "messages (interrupt_resolved now s) = messages (handleMessageStopped now s)"
  by (simp add: interrupt_resolved_def Let_def handleMessageStopped_def update_last_message_def
      split: Content.splits)

lemma close_thinking_cases:
  "close_thinking now b =
     (if btype b = ThinkingBlock \<and> isComplete b \<noteq> Some True
      then b\<lparr>isComplete := Some True,
             thinkingDurationMs :=
               (case thinkingStartedAt b of
                  None \<Rightarrow> None
                | Some t0 \<Rightarrow> if t0 \<noteq> 0 then Some (ms now - t0) else None)\<rparr>
      else b)"
  by (auto simp: close_thinking_def split: option.splits)

lemma handleMessageStopped_other:
  assumes "messages s = [] \<or> role (last (messages s)) \<noteq> Assistant
           \<or> (\<exists>t. content (last (messages s)) = Plain t)"
  shows "messages (handleMessageStopped now s) = messages s"
  using assms by (auto simp: handleMessageStopped_def Let_def)

text \<open>
  Claim C5, as amended. When an interrupt completes while the last message is an assistant
  message with a block array, every thinking block of that message that is not complete
  is marked complete, and nothing else in the transcript changes. A block closed this way
  gets as its duration the clock reading of the interrupt minus its recorded start time,
  which is not negative exactly when the clock reading is not before the start time; a
  block without a recorded start time gets no duration. When the last message is not an
  assistant message with a block array (the transcript is empty, a user message was
  appended after the block was opened, or the content is a string), the interrupt leaves
  the transcript as it is.
\<close>

theorem interrupt_closes_thinking:
  "(messages s \<noteq> [] \<and> role (last (messages s)) = Assistant \<and> content (last (messages s)) = Blocks bs
      \<longrightarrow>
        messages (interrupt_resolved now s) =
          butlast (messages s) @ [(last (messages s))\<lparr>content := Blocks (map (close_thinking now) bs)\<rparr>]
        \<and> (\<forall>b \<in> set (map (close_thinking now) bs). btype b = ThinkingBlock \<longrightarrow> isComplete b = Some True))
   \<and> (btype b = ThinkingBlock \<and> isComplete b \<noteq> Some True \<and> thinkingStartedAt b = Some t0 \<and> t0 \<noteq> 0
      \<longrightarrow> close_thinking now b = b\<lparr>isComplete := Some True, thinkingDurationMs := Some (ms now - t0)\<rparr>
        \<and> (0 \<le> the (thinkingDurationMs (close_thinking now b))) = (t0 \<le> ms now))
   \<and> (btype b = ThinkingBlock \<and> isComplete b \<noteq> Some True
        \<and> (thinkingStartedAt b = None \<or> thinkingStartedAt b = Some 0)
      \<longrightarrow> close_thinking now b = b\<lparr>isComplete := Some True, thinkingDurationMs := None\<rparr>)
   \<and> (btype b \<noteq> ThinkingBlock \<or> isComplete b = Some True \<longrightarrow> close_thinking now b = b)
   \<and> (messages s = [] \<or> role (last (messages s)) \<noteq> Assistant
        \<or> (\<exists>t. content (last (messages s)) = Plain t)
      \<longrightarrow> messages (interrupt_resolved now s) = messages s)
   \<and> messages (handleMessageStopped now s) = messages (interrupt_resolved now s)
   \<and> (0 < interruptsInFlight s \<longrightarrow> exec cfg (InterruptResolves now) s = Some (interrupt_resolved now s))"
proof (intro conjI impI)
  assume a: "messages s \<noteq> [] \<and> role (last (messages s)) = Assistant \<and> content (last (messages s)) = Blocks bs"
  then show "messages (interrupt_resolved now s) =
          butlast (messages s) @ [(last (messages s))\<lparr>content := Blocks (map (close_thinking now) bs)\<rparr>]"
    using handleMessageStopped_blocks[of s bs now] by (simp add: interrupt_resolved_messages)
  show "\<forall>b \<in> set (map (close_thinking now) bs). btype b = ThinkingBlock \<longrightarrow> isComplete b = Some True"
    by (auto simp: close_thinking_closes)
next
  assume a: "btype b = ThinkingBlock \<and> isComplete b \<noteq> Some True \<and> thinkingStartedAt b = Some t0 \<and> t0 \<noteq> 0"
  then show c: "close_thinking now b = b\<lparr>isComplete := Some True, thinkingDurationMs := Some (ms now - t0)\<rparr>"
    by (simp add: close_thinking_cases)
  show "(0 \<le> the (thinkingDurationMs (close_thinking now b))) = (t0 \<le> ms now)"
    unfolding c by simp
next
  assume "btype b = ThinkingBlock \<and> isComplete b \<noteq> Some True
        \<and> (thinkingStartedAt b = None \<or> thinkingStartedAt b = Some 0)"
  then show "close_thinking now b = b\<lparr>isComplete := Some True, thinkingDurationMs := None\<rparr>"
    by (auto simp: close_thinking_cases)
next
  assume "btype b \<noteq> ThinkingBlock \<or> isComplete b = Some True"
  then show "close_thinking now b = b" by (auto simp: close_thinking_cases)
next
  assume "messages s = [] \<or> role (last (messages s)) \<noteq> Assistant
        \<or> (\<exists>t. content (last (messages s)) = Plain t)"
  then show "messages (interrupt_resolved now s) = messages s"
    using handleMessageStopped_other[of s now] by (simp add: interrupt_resolved_messages)
next
  show "messages (handleMessageStopped now s) = messages (interrupt_resolved now s)"
    by (simp add: interrupt_resolved_messages)
next
  assume "0 < interruptsInFlight s"
  then show "exec cfg (InterruptResolves now) s = Some (interrupt_resolved now s)"
    by (simp add: exec_def)
qed

text \<open>
  Claim C5 as stated fails: a thinking block that was opened before a user message was
  enqueued stays open when the interrupt completes, and with a clock that has gone back
  the duration recorded is negative.
\<close>

theorem interrupt_closes_thinking_counterexample:
  "map_option contents
     (exec_all (sample_config AgentSessionTs) thinking_then_user
        (sample_start AgentSessionTs)) =
     Some [Plain ''hello'',
        Blocks [\<lparr>btype = ThinkingBlock, block_text = None, tool = None, thinking = Some [],
                 thinkingStartedAt = Some 2000, thinkingDurationMs = None,
                 thinkingStreamIndex = Some 0, isComplete = None\<rparr>],
        Plain ''more'']
   \<and> map_option contents
     (exec_all (sample_config AgentSessionTs)
        (thinking_then_user @ [InterruptResolves (at 2500)])
        (sample_start AgentSessionTs)) =
     Some [Plain ''hello'',
        Blocks [\<lparr>btype = ThinkingBlock, block_text = None, tool = None, thinking = Some [],
                 thinkingStartedAt = Some 2000, thinkingDurationMs = None,
                 thinkingStreamIndex = Some 0, isComplete = None\<rparr>],
        Plain ''more'']
   \<and> map_option contents
     (exec_all (sample_config AgentSessionTs)
        (thinking_interrupted @ [InterruptResolves (at 1500)])
        (sample_start AgentSessionTs)) =
     Some [Plain ''hello'',
        Blocks [\<lparr>btype = ThinkingBlock, block_text = None, tool = None, thinking = Some [],
                 thinkingStartedAt = Some 2000, thinkingDurationMs = Some (- 500),
                 thinkingStreamIndex = Some 0, isComplete = Some True\<rparr>]]"
  by (simp add: thinking_then_user_def thinking_interrupted_def thinking_start_msg_def
      message_of_def contents_def eval_more loop_body_def dispatch_v1_def)

theorem interrupt_closes_thinking_witness:
  "content (last (messages (sample_thinking AgentSessionTs))) =
     Blocks [\<lparr>btype = ThinkingBlock, block_text = None, tool = None, thinking = Some [],
              thinkingStartedAt = Some 2000, thinkingDurationMs = None,
              thinkingStreamIndex = Some 0, isComplete = None\<rparr>]
   \<and> content (last (messages (interrupt_resolved (at 2500) (sample_thinking AgentSessionTs)))) =
     Blocks [\<lparr>btype = ThinkingBlock, block_text = None, tool = None, thinking = Some [],
              thinkingStartedAt = Some 2000, thinkingDurationMs = Some 500,
              thinkingStreamIndex = Some 0, isComplete = Some True\<rparr>]"
proof -
  let ?b = "\<lparr>btype = ThinkingBlock, block_text = None, tool = None, thinking = Some [],
              thinkingStartedAt = Some 2000, thinkingDurationMs = None,
              thinkingStreamIndex = Some 0, isComplete = None\<rparr>"
  have c: "messages (sample_thinking AgentSessionTs) \<noteq> []"
    "role (last (messages (sample_thinking AgentSessionTs))) = Assistant"
    "content (last (messages (sample_thinking AgentSessionTs))) = Blocks [?b]"
    by (simp_all add: eval_more)
  show ?thesis
    using c interrupt_closes_thinking[where s = "sample_thinking AgentSessionTs" and bs = "[?b]"
        and now = "at 2500" and b = ?b and ?t0.0 = 2000]
    by (simp add: at_def)
qed


subsection \<open>Text deltas\<close>

lemma has_open_appendTextChunk: "has_open_message (appendTextChunk now c s)"
  by (simp add: has_open_message_def appendTextChunk_def update_last_message_def
      ensureAssistantMessage_def split: Content.splits)

lemma accumulated_appendTextChunk:
  "accumulated_text (appendTextChunk now c s) = accumulated_text s @ c"
proof (cases "has_open_message s")
  case True
  then show ?thesis
    using has_open_appendTextChunk[of now c s]
    by (cases "content (last (messages s))")
       (auto simp: accumulated_text_def has_open_message_def appendTextChunk_def
          update_last_message_def ensureAssistantMessage_def text_block_def or_empty_def)
next
  case False
  then show ?thesis
    using has_open_appendTextChunk[of now c s]
    by (auto simp: accumulated_text_def has_open_message_def appendTextChunk_def
          update_last_message_def ensureAssistantMessage_def)
qed

lemma accumulated_apply_chunks:
  "accumulated_text (apply_chunks cs s) = accumulated_text s @ concat (map snd cs)"
  by (induction cs arbitrary: s) (simp_all add: accumulated_appendTextChunk)

lemma has_open_apply_chunks: "cs \<noteq> [] \<or> has_open_message s \<Longrightarrow> has_open_message (apply_chunks cs s)"
  by (induction cs arbitrary: s) (auto simp: has_open_appendTextChunk)

lemma chunk_plain:
  assumes "has_open_message s" "content (last (messages s)) = Plain t"
  shows "content (last (messages (appendTextChunk now c s))) = Plain (t @ c)"
  using assms
  by (simp add: has_open_message_def appendTextChunk_def update_last_message_def ensureAssistantMessage_def)

lemma chunk_fresh:
  assumes "\<not> has_open_message s"
  shows "content (last (messages (appendTextChunk now c s))) = Plain c"
  using assms
  by (auto simp: has_open_message_def appendTextChunk_def update_last_message_def ensureAssistantMessage_def)

lemma chunks_plain:
  "has_open_message s \<Longrightarrow> content (last (messages s)) = Plain t \<Longrightarrow>
   content (last (messages (apply_chunks cs s))) = Plain (t @ concat (map snd cs))"
proof (induction cs arbitrary: s t)
  case Nil
  then show ?case by simp
next
  case (Cons c cs)
  have o: "has_open_message (appendTextChunk (fst c) (snd c) s)" by (rule has_open_appendTextChunk)
  have p: "content (last (messages (appendTextChunk (fst c) (snd c) s))) = Plain (t @ snd c)"
    using Cons.prems by (rule chunk_plain)
  show ?case using Cons.IH[OF o p] by simp
qed

lemma chunk_text_block:
  assumes "has_open_message s" "content (last (messages s)) = Blocks (bs @ [text_block t])"
  shows "content (last (messages (appendTextChunk now c s))) = Blocks (bs @ [text_block (t @ c)])"
  using assms
  by (simp add: has_open_message_def appendTextChunk_def update_last_message_def
      ensureAssistantMessage_def text_block_def or_empty_def)

lemma chunk_new_block:
  assumes "has_open_message s" "content (last (messages s)) = Blocks bs"
    "bs = [] \<or> btype (last bs) \<noteq> TextBlock"
  shows "content (last (messages (appendTextChunk now c s))) = Blocks (bs @ [text_block c])"
  using assms
  by (auto simp: has_open_message_def appendTextChunk_def update_last_message_def
      ensureAssistantMessage_def)

lemma chunks_text_block:
  "has_open_message s \<Longrightarrow> content (last (messages s)) = Blocks (bs @ [text_block t]) \<Longrightarrow>
   content (last (messages (apply_chunks cs s))) = Blocks (bs @ [text_block (t @ concat (map snd cs))])"
proof (induction cs arbitrary: s t)
  case Nil
  then show ?case by simp
next
  case (Cons c cs)
  have o: "has_open_message (appendTextChunk (fst c) (snd c) s)" by (rule has_open_appendTextChunk)
  have p: "content (last (messages (appendTextChunk (fst c) (snd c) s))) = Blocks (bs @ [text_block (t @ snd c)])"
    using Cons.prems by (rule chunk_text_block)
  show ?case using Cons.IH[OF o p] by simp
qed

lemma chunks_fresh:
  assumes "\<not> has_open_message s" "cs \<noteq> []"
  shows "content (last (messages (apply_chunks cs s))) = Plain (concat (map snd cs))"
proof (cases cs)
  case Nil
  then show ?thesis using assms by simp
next
  case (Cons c rest)
  have o: "has_open_message (appendTextChunk (fst c) (snd c) s)" by (rule has_open_appendTextChunk)
  have p: "content (last (messages (appendTextChunk (fst c) (snd c) s))) = Plain (snd c)"
    using assms(1) by (rule chunk_fresh)
  show ?thesis using chunks_plain[OF o p, of rest] by (simp add: Cons)
qed

lemma chunks_new_block:
  assumes "has_open_message s" "content (last (messages s)) = Blocks bs"
    "bs = [] \<or> btype (last bs) \<noteq> TextBlock" "cs \<noteq> []"
  shows "content (last (messages (apply_chunks cs s))) = Blocks (bs @ [text_block (concat (map snd cs))])"
proof (cases cs)
  case Nil
  then show ?thesis using assms by simp
next
  case (Cons c rest)
  have o: "has_open_message (appendTextChunk (fst c) (snd c) s)" by (rule has_open_appendTextChunk)
  have p: "content (last (messages (appendTextChunk (fst c) (snd c) s))) = Blocks (bs @ [text_block (snd c)])"
    using assms(1,2,3) by (rule chunk_new_block)
  show ?thesis using chunks_text_block[OF o p, of rest] by (simp add: Cons)
qed

lemma accumulated_broadcast: "accumulated_text (broadcast ev d s) = accumulated_text s"
  by (simp add: accumulated_text_def has_open_message_def)

lemma text_delta_dispatch:
  assumes "body m = StreamEvent (ContentBlockDelta i (TextDelta t))" "\<not> truthy (parent_tool_use_id m)"
  shows "dispatch_v1 cfg now m s = appendTextChunk now t (broadcast ''chat:message-chunk'' (VStr t) s)"
    and "dispatch_v2 cfg now m s = appendTextChunk now t (broadcast ''chat:message-chunk'' (VStr t) s)"
  using assms by (simp_all add: dispatch_v1_def dispatch_v2_def text_delta_v2_def)

text \<open>
  Claim C2. Text deltas applied by \<^verbatim>\<open>appendTextChunk\<close> in arrival order extend the
  accumulated text of the open assistant message by their concatenation. With no open
  message the first delta opens one and its content is the concatenation as a plain string;
  an open message with string content has the concatenation appended; an open message with
  a block array gets the concatenation in its trailing text block (a new one when the array
  is empty or ends with another kind of block). A text delta without parent tool id is
  applied by \<^verbatim>\<open>appendTextChunk\<close> in both copies of the event loop.
\<close>

theorem text_deltas_concatenate:
  "accumulated_text (apply_chunks cs s) = accumulated_text s @ concat (map snd cs)
   \<and> (\<not> has_open_message s \<and> cs \<noteq> [] \<longrightarrow>
        has_open_message (apply_chunks cs s)
        \<and> content (last (messages (apply_chunks cs s))) = Plain (concat (map snd cs)))
   \<and> (has_open_message s \<and> content (last (messages s)) = Plain t0 \<longrightarrow>
        content (last (messages (apply_chunks cs s))) = Plain (t0 @ concat (map snd cs)))
   \<and> (has_open_message s \<and> content (last (messages s)) = Blocks bs
        \<and> (bs = [] \<or> btype (last bs) \<noteq> TextBlock) \<and> cs \<noteq> [] \<longrightarrow>
        content (last (messages (apply_chunks cs s))) = Blocks (bs @ [text_block (concat (map snd cs))]))
   \<and> (has_open_message s \<and> content (last (messages s)) = Blocks (bs @ [text_block t0]) \<longrightarrow>
        content (last (messages (apply_chunks cs s))) = Blocks (bs @ [text_block (t0 @ concat (map snd cs))]))
   \<and> (body m = StreamEvent (ContentBlockDelta i (TextDelta t)) \<and> \<not> truthy (parent_tool_use_id m) \<longrightarrow>
        accumulated_text (dispatch_v1 cfg now m s) = accumulated_text s @ t
        \<and> accumulated_text (dispatch_v2 cfg now m s) = accumulated_text s @ t)"
  using accumulated_apply_chunks[of cs s] has_open_apply_chunks[of cs s] chunks_fresh[of s cs]
    chunks_plain[of s t0 cs] chunks_new_block[of s bs cs] chunks_text_block[of s bs t0 cs]
    text_delta_dispatch[of m i t cfg now s]
  by (simp add: accumulated_appendTextChunk accumulated_broadcast)

theorem text_deltas_concatenate_witness:
  "\<not> has_open_message (sample_running AgentSessionTs)
   \<and> content (last (messages (apply_chunks [(at 1002, ''Hel''), (at 1003, ''lo'')]
        (sample_running AgentSessionTs)))) = Plain ''Hello''
   \<and> has_open_message (sample_thinking AgentSessionTs)
   \<and> accumulated_text (apply_chunks [(at 2001, ''Hel''), (at 2002, ''lo'')]
        (sample_thinking AgentSessionTs)) = ''Hello''
   \<and> content (last (messages (apply_chunks [(at 2001, ''Hel''), (at 2002, ''lo'')]
        (sample_thinking AgentSessionTs)))) =
       Blocks [\<lparr>btype = ThinkingBlock, block_text = None, tool = None, thinking = Some [],
                thinkingStartedAt = Some 2000, thinkingDurationMs = None,
                thinkingStreamIndex = Some 0, isComplete = None\<rparr>,
               text_block ''Hello'']"
proof -
  have c: "\<not> has_open_message (sample_running AgentSessionTs)"
    "has_open_message (sample_thinking AgentSessionTs)"
    "content (last (messages (sample_thinking AgentSessionTs))) =
     Blocks [\<lparr>btype = ThinkingBlock, block_text = None, tool = None, thinking = Some [],
              thinkingStartedAt = Some 2000, thinkingDurationMs = None,
              thinkingStreamIndex = Some 0, isComplete = None\<rparr>]"
    "accumulated_text (sample_thinking AgentSessionTs) = []"
    by (simp_all add: eval_more has_open_message_def accumulated_text_def)
  show ?thesis
    using c
      text_deltas_concatenate[of "[(at 1002, ''Hel''), (at 1003, ''lo'')]" "sample_running AgentSessionTs"]
      text_deltas_concatenate[of "[(at 2001, ''Hel''), (at 2002, ''lo'')]" "sample_thinking AgentSessionTs" _
        "[\<lparr>btype = ThinkingBlock, block_text = None, tool = None, thinking = Some [],
              thinkingStartedAt = Some 2000, thinkingDurationMs = None,
              thinkingStreamIndex = Some 0, isComplete = None\<rparr>]"]
    by simp
qed


subsection \<open>The seed-prompt flag\<close>

lemma enqueue_v1_keeps_flag:
  "hasInitialPrompt (snd (enqueueUserMessage AgentSessionTs now t s)) = hasInitialPrompt s"
  by (simp add: enqueueUserMessage_def Let_def)

lemma enqueue_v2_sets_flag:
  "trim t \<noteq> [] \<Longrightarrow> hasInitialPrompt (snd (enqueueUserMessage IndexTs now t s))"
  by (simp add: enqueueUserMessage_def Let_def)

lemma enqueue_keeps_set_flag:
  "hasInitialPrompt s \<Longrightarrow> hasInitialPrompt (snd (enqueueUserMessage v now t s))"
  by (simp add: enqueueUserMessage_def Let_def split: version.splits)

lemma finally_keeps_flag: "hasInitialPrompt (run_finally rp s) = hasInitialPrompt s"
  by (simp add: run_finally_def Let_def)

lemma exec_keeps_flag:
  assumes "hasInitialPrompt s" "exec cfg a s = Some s'"
  shows "hasInitialPrompt s'"
proof (cases a)
  case (Enqueue now t)
  then show ?thesis using assms enqueue_keeps_set_flag by (auto simp: exec_def)
next
  case (ResumeStart p)
  then show ?thesis using assms by (auto simp: exec_def split: if_splits)
next
  case (RuntimeMessage rp now m)
  then show ?thesis using assms
    by (auto simp: exec_def finally_keeps_flag split: if_splits loop_result.splits
        dest!: ctl_loop_body ctl_runs(10))
next
  case (RuntimeEnds rp)
  then show ?thesis using assms by (auto simp: exec_def finally_keeps_flag split: if_splits)
next
  case (RuntimeThrows rp now e)
  then show ?thesis using assms ctl_runs(10)[OF ctl_run_catch, of now e s]
    by (auto simp: exec_def finally_keeps_flag split: if_splits)
next
  case Interrupt
  then show ?thesis using assms by (auto simp: exec_def interruptCurrentResponse_def)
next
  case (InterruptResolves now)
  then show ?thesis
    using assms ctl_runs(10)[OF ctl_handleMessageStopped, of now "broadcast ''chat:message-stopped'' VNull s"]
    by (auto simp: exec_def interrupt_resolved_def Let_def split: if_splits)
next
  case InterruptRejects
  then show ?thesis using assms by (auto simp: exec_def interrupt_rejected_def split: if_splits)
next
  case (FeedNext g)
  then have "a = FeedNext g \<or> a = FeedTimer g \<or> a = FeedResume g" by simp
  from feed_exec(6)[OF assms(2) this] show ?thesis using assms by simp
next
  case (FeedTimer g)
  then have "a = FeedNext g \<or> a = FeedTimer g \<or> a = FeedResume g" by simp
  from feed_exec(6)[OF assms(2) this] show ?thesis using assms by simp
next
  case (FeedResume g)
  then have "a = FeedNext g \<or> a = FeedTimer g \<or> a = FeedResume g" by simp
  from feed_exec(6)[OF assms(2) this] show ?thesis using assms by simp
qed

lemma exec_all_keeps_flag:
  "hasInitialPrompt s \<Longrightarrow> exec_all cfg acts s = Some s' \<Longrightarrow> hasInitialPrompt s'"
  by (induction acts arbitrary: s) (auto split: option.splits dest: exec_keeps_flag)

lemma index_ts_flag_stays_set:
  "trim t \<noteq> [] \<Longrightarrow>
   exec_all cfg acts (snd (enqueueUserMessage IndexTs now t s)) = Some s' \<Longrightarrow>
   st_hasInitialPrompt (getAgentState s')"
  using exec_all_keeps_flag[OF enqueue_v2_sets_flag] by (simp add: getAgentState_def)

text \<open>
  Claim C9 at a concrete input. After \<^verbatim>\<open>initializeAgent\<close> without a prompt and one
  successful \<^verbatim>\<open>enqueueUserMessage('hello')\<close>, \<^verbatim>\<open>getAgentState().hasInitialPrompt\<close> is
  still false in agent-session.ts; the later copy of the module sets it.
\<close>

theorem agent_session_ts_leaves_flag_unset:
  "fst (enqueueUserMessage AgentSessionTs (at 1001) ''hello'' (sample_start AgentSessionTs)) = AwaitingFeed 0
   \<and> messages (sample_running AgentSessionTs) =
        [\<lparr>msg_id = ''0'', role = User, content = Plain ''hello'', timestamp = ''T1001''\<rparr>]
   \<and> st_hasInitialPrompt (getAgentState (sample_running AgentSessionTs)) = False
   \<and> st_hasInitialPrompt (getAgentState (sample_running IndexTs)) = True"
  by (simp add: eval_more)

subsection \<open>The parent map\<close>

named_theorems cmap_frame

lemma cmap_basic [cmap_frame]:
  "childToolToParent (ensureAssistantMessage now s) = childToolToParent s"
  "childToolToParent (update_last_message f s) = childToolToParent s"
  "childToolToParent (modifyToolBlock tid g s) = childToolToParent s"
  "childToolToParent (appendLogLine l s) = childToolToParent s"
  by (simp_all add: ensureAssistantMessage_def update_last_message_def modifyToolBlock_def
      appendLogLine_def Let_def)

lemma cmap_on_content_array [cmap_frame]:
  "childToolToParent (on_content_array now f s) = childToolToParent s"
  by (simp add: on_content_array_def cmap_frame)

lemma cmap_handlers [cmap_frame]:
  "childToolToParent (appendTextChunk now c0 s) = childToolToParent s"
  "childToolToParent (handleThinkingStart now i s) = childToolToParent s"
  "childToolToParent (handleThinkingChunk now i d s) = childToolToParent s"
  "childToolToParent (handleToolUseStart now tp s) = childToolToParent s"
  "childToolToParent (handleToolInputDelta cfg now i tid d s) = childToolToParent s"
  "childToolToParent (handleContentBlockStop cfg now i otid s) = childToolToParent s"
  "childToolToParent (handleMessageComplete s) = childToolToParent s"
  "childToolToParent (modify_call p tid g s) = childToolToParent s"
  "childToolToParent (setToolResult tid c0 e s) = childToolToParent s"
  by (simp_all add: appendTextChunk_def handleThinkingStart_def handleThinkingChunk_def
      handleToolUseStart_def handleToolInputDelta_def handleContentBlockStop_def
      handleMessageComplete_def modify_call_def setToolResult_def cmap_frame)

lemma cmap_opt [cmap_frame]:
  "handleSubagentToolResultStart tid c0 b s = Some s' \<Longrightarrow> childToolToParent s' = childToolToParent s"
  "handleSubagentToolResultComplete tid c0 e s = Some s' \<Longrightarrow> childToolToParent s' = childToolToParent s"
  "appendSubagentToolResultDelta tid d s = Some s' \<Longrightarrow> childToolToParent s' = childToolToParent s"
  "finalizeSubagentToolResult tid s = Some s' \<Longrightarrow> childToolToParent s' = childToolToParent s"
  by (auto simp: handleSubagentToolResultStart_def handleSubagentToolResultComplete_def
      appendSubagentToolResultDelta_def finalizeSubagentToolResult_def cmap_frame split: option.splits)

lemma cmap_results [cmap_frame]:
  "childToolToParent (snd (appendToolResultContent tid c0 e s)) = childToolToParent s"
  "childToolToParent (appendToolResultDelta tid d s) = childToolToParent s"
  "childToolToParent (handleToolResultStart tid c0 b s) = childToolToParent s"
  "childToolToParent (handleToolResultComplete tid c0 e s) = childToolToParent s"
  "childToolToParent (handleSubagentToolInputDelta cfg p tid d s) = childToolToParent s"
  "childToolToParent (finalizeSubagentToolInput cfg p tid s) = childToolToParent s"
  by (auto simp: appendToolResultContent_def appendToolResultDelta_def handleToolResultStart_def
      handleToolResultComplete_def handleSubagentToolInputDelta_def finalizeSubagentToolInput_def
      Let_def cmap_frame split: option.splits)

text \<open>The two writers of the map.\<close>

lemma cmap_use_start:
  "childToolToParent (handleSubagentToolUseStart p tp s) =
     (if findToolBlockById p s = None then childToolToParent s
      else (childToolToParent s)(p_id tp \<mapsto> p))"
  by (simp add: handleSubagentToolUseStart_def cmap_frame split: option.splits)

lemma cmap_placeholder:
  "childToolToParent s c = Some p \<Longrightarrow>
   childToolToParent (ensure_placeholder_if_unmapped p' tid s) c = Some p"
  by (auto simp: ensure_placeholder_if_unmapped_def ensureSubagentToolPlaceholder_def cmap_frame
      split: option.splits)

lemma cmap_use_start_keeps:
  "childToolToParent s c = Some p \<Longrightarrow> p_id tp \<noteq> c \<or> p' = p \<Longrightarrow>
   childToolToParent (handleSubagentToolUseStart p' tp s) c = Some p"
  by (auto simp: cmap_use_start)


lemma foldl_keeps:
  "(\<And>b s. b \<in> set bs \<Longrightarrow> P s \<Longrightarrow> P (f s b)) \<Longrightarrow> P s \<Longrightarrow> P (foldl f s bs)"
  by (induction bs arbitrary: s) auto

lemma keep_text_delta:
  "childToolToParent (text_delta_v2 now m t s) = childToolToParent s"
  by (simp add: text_delta_v2_def Let_def cmap_frame)

lemma keep_input_delta:
  "childToolToParent (input_delta_v2 cfg now m i pj s) = childToolToParent s"
  by (simp add: input_delta_v2_def Let_def cmap_frame)

lemma keep_tool_use_start:
  assumes "childToolToParent s c = Some p"
    and "\<not> (truthy (parent_tool_use_id m) \<and> or_empty (parent_tool_use_id m) \<noteq> p \<and> tid = c)"
  shows "childToolToParent (tool_use_start_v2 now m i tid n inp s) c = Some p"
  using assms by (auto simp: tool_use_start_v2_def Let_def cmap_frame cmap_use_start)

lemma keep_result_start:
  assumes "childToolToParent s c = Some p"
  shows "childToolToParent (result_start_v2 m i tid rc e s) c = Some p"
proof -
  let ?s1 = "s\<lparr>toolResultIndexToId := (toolResultIndexToId s)(i \<mapsto> tid)\<rparr>"
  have "childToolToParent ?s1 c = Some p" using assms by simp
  then have "childToolToParent (ensure_placeholder_if_unmapped q tid ?s1) c = Some p" for q
    by (rule cmap_placeholder)
  then show ?thesis using assms
    by (simp add: result_start_v2_def Let_def cmap_frame)
qed

lemma keep_subagent_result_stop:
  "childToolToParent (subagent_result_stop i s) = childToolToParent s"
  by (auto simp: subagent_result_stop_def Let_def split: option.splits dest!: cmap_opt(4))

lemma keep_block_stop:
  "childToolToParent (block_stop_v2 cfg now m i s) = childToolToParent s"
  by (simp add: block_stop_v2_def Let_def cmap_frame keep_subagent_result_stop)

lemma keep_user_block:
  assumes "childToolToParent s c = Some p"
  shows "childToolToParent (user_block_v2 m s b) c = Some p"
  using assms cmap_placeholder[OF assms]
  by (cases b) (simp_all add: user_block_v2_def Let_def cmap_frame)

lemma keep_assistant_result:
  assumes "childToolToParent s c = Some p"
  shows "childToolToParent (assistant_result_v2 m s b) c = Some p"
  using assms cmap_placeholder[OF assms]
  by (cases b) (simp_all add: assistant_result_v2_def Let_def cmap_frame)

lemma keep_assistant_tool_use:
  assumes "childToolToParent s c = Some p"
    and "q = p \<or> (case b of MToolUse i n inp \<Rightarrow> i \<noteq> c | _ \<Rightarrow> True)"
  shows "childToolToParent (assistant_tool_use_v2 q s b) c = Some p"
  using assms by (cases b) (auto simp: assistant_tool_use_v2_def Let_def cmap_use_start)

lemma keep_assistant_text:
  "childToolToParent (assistant_text_v2 q mc s) = childToolToParent s"
  using cmap_results(1)[of q "formatAssistantContent mc" None s]
  by (cases "appendToolResultContent q (formatAssistantContent mc) None s")
     (simp add: assistant_text_v2_def Let_def)

lemma tool_use_ids_assistant:
  "body m = AssistantMessage mc \<Longrightarrow> b \<in> set (blocks_of_content mc) \<Longrightarrow> c \<notin> set (tool_use_ids m) \<Longrightarrow>
   (case b of MToolUse i n inp \<Rightarrow> i \<noteq> c | _ \<Rightarrow> True)"
  by (cases mc; cases b) (auto simp: tool_use_ids_def blocks_of_content_def)

lemma keep_assistant:
  assumes "childToolToParent s c = Some p" "body m = AssistantMessage mc" "\<not> redeclares c p m"
  shows "childToolToParent (assistant_v2 m mc s) c = Some p"
proof -
  let ?P = "\<lambda>s :: session. childToolToParent s c = Some p"
  let ?q = "or_empty (parent_tool_use_id m)"
  define s1 where "s1 = (if truthy (parent_tool_use_id m)
                then foldl (assistant_tool_use_v2 ?q) s (blocks_of_content mc) else s)"
  define s2 where "s2 = (if truthy (parent_tool_use_id m) then assistant_text_v2 ?q mc s1 else s1)"
  have 1: "?P s1"
  proof (cases "truthy (parent_tool_use_id m)")
    case True
    have "?P (foldl (assistant_tool_use_v2 ?q) s (blocks_of_content mc))"
    proof (rule foldl_keeps[where P = ?P])
      fix b and s0 :: session assume b: "b \<in> set (blocks_of_content mc)" and s0: "?P s0"
      have "?q = p \<or> (case b of MToolUse i n inp \<Rightarrow> i \<noteq> c | _ \<Rightarrow> True)"
        using assms(3) True tool_use_ids_assistant[OF assms(2) b, of c]
        by (auto simp: redeclares_def)
      then show "?P (assistant_tool_use_v2 ?q s0 b)" using s0 by (rule keep_assistant_tool_use[rotated])
    qed (rule assms(1))
    then show ?thesis using True by (simp add: s1_def)
  next
    case False
    then show ?thesis using assms(1) by (simp add: s1_def)
  qed
  have 2: "?P s2"
    using 1 by (cases "truthy (parent_tool_use_id m)") (simp_all add: s2_def keep_assistant_text)
  have "?P (foldl (assistant_result_v2 m) s2 (blocks_of_content mc))"
    by (rule foldl_keeps[where P = ?P]) (rule keep_assistant_result, assumption, rule 2)
  then show ?thesis
    unfolding assistant_v2_def Let_def s2_def s1_def .
qed

lemma keep_dispatch_v2:
  assumes "childToolToParent s c = Some p" "\<not> redeclares c p m"
  shows "childToolToParent (dispatch_v2 cfg now m s) c = Some p"
proof (cases "body m")
  case (StreamEvent ev)
  show ?thesis
  proof (cases ev)
    case (ContentBlockDelta i d)
    then show ?thesis using assms StreamEvent
      by (cases d) (simp_all add: dispatch_v2_def keep_text_delta keep_input_delta cmap_frame)
  next
    case (ContentBlockStart i sb)
    show ?thesis
    proof (cases sb)
      case (StartToolUse tid n inp)
      have "\<not> (truthy (parent_tool_use_id m) \<and> or_empty (parent_tool_use_id m) \<noteq> p \<and> tid = c)"
        using assms(2) StreamEvent ContentBlockStart StartToolUse
        by (auto simp: redeclares_def tool_use_ids_def)
      then show ?thesis using assms(1) StreamEvent ContentBlockStart StartToolUse
        by (simp add: dispatch_v2_def keep_tool_use_start)
    next
      case (StartResult ty tid rc e)
      then show ?thesis using assms(1) StreamEvent ContentBlockStart
        by (cases tid) (simp_all add: dispatch_v2_def keep_result_start)
    qed (use assms(1) StreamEvent ContentBlockStart in \<open>simp_all add: dispatch_v2_def cmap_frame\<close>)
  next
    case (ContentBlockStop i)
    then show ?thesis using assms(1) StreamEvent by (simp add: dispatch_v2_def keep_block_stop)
  next
    case OtherEvent
    then show ?thesis using assms(1) StreamEvent by (simp add: dispatch_v2_def)
  qed
next
  case (AssistantMessage mc)
  then show ?thesis using keep_assistant[OF assms(1) AssistantMessage assms(2)]
    by (simp add: dispatch_v2_def)
next
  case (UserMessage mc)
  have "childToolToParent (foldl (user_block_v2 m) s (blocks_of_content mc)) c = Some p"
    by (rule foldl_keeps[where P = "\<lambda>s :: session. childToolToParent s c = Some p"])
       (rule keep_user_block, assumption, rule assms(1))
  then show ?thesis using assms(1) UserMessage by (simp add: dispatch_v2_def)
next
  case ResultMessage
  then show ?thesis using assms(1) by (simp add: dispatch_v2_def cmap_frame)
qed (use assms(1) in \<open>simp_all add: dispatch_v2_def\<close>)

lemma keep_apply_messages:
  "childToolToParent s c = Some p \<Longrightarrow> \<forall>m \<in> set msgs. \<not> redeclares c p (snd m) \<Longrightarrow>
   childToolToParent (apply_messages cfg msgs s) c = Some p"
  by (induction msgs arbitrary: s) (simp_all add: keep_dispatch_v2)

lemma keep_preamble: "childToolToParent (preamble_v2 now m s) = childToolToParent s"
  by (simp add: preamble_v2_def Let_def cmap_frame split: option.splits)

subsection \<open>Lookups and mutations of tool blocks\<close>

lemma find_modify_first:
  "(\<And>x. P (g x) = P x) \<Longrightarrow> find P (modify_first P g xs) = map_option g (find P xs)"
  by (induction xs) auto

lemma find_None_iff_set: "(find P xs = None) = (\<forall>x \<in> set xs. \<not> P x)"
  by (induction xs) auto

lemma is_tool_on_tool:
  "(\<And>t. tool_id (f t) = tool_id t) \<Longrightarrow> is_tool tid (on_tool f b) = is_tool tid b"
  by (cases "tool b") (simp_all add: is_tool_def on_tool_def)

lemma Bex_modify_first:
  "(\<And>x. P (g x) = P x) \<Longrightarrow> (\<exists>x \<in> set (modify_first P g xs). P x) = (\<exists>x \<in> set xs. P x)"
  by (induction xs) auto

lemma find_owner_modify_owner:
  assumes "\<And>t. tool_id (f t) = tool_id t"
  shows "find_owner tid (modify_owner tid f msgs) = map_option f (find_owner tid msgs)"
proof (induction msgs)
  case Nil
  show ?case by simp
next
  case (Cons m rest)
  show ?case
  proof (cases "owns_tool tid m")
    case False
    then show ?thesis using Cons by simp
  next
    case True
    then obtain bs where bs: "content m = Blocks bs" and r: "role m = Assistant"
      and ex: "\<exists>b \<in> set bs. is_tool tid b"
      by (cases "content m") (auto simp: owns_tool_def)
    let ?m' = "m\<lparr>content := Blocks (modify_first (is_tool tid) (on_tool f) bs)\<rparr>"
    have o: "owns_tool tid ?m'"
      using r ex Bex_modify_first[of "is_tool tid" "on_tool f" bs] is_tool_on_tool[OF assms]
      by (simp add: owns_tool_def)
    have "find (is_tool tid) (modify_first (is_tool tid) (on_tool f) bs)
            = map_option (on_tool f) (find (is_tool tid) bs)"
      by (rule find_modify_first) (rule is_tool_on_tool[OF assms])
    then have t: "tool_in tid ?m' = map_option f (tool_in tid m)"
      by (cases "find (is_tool tid) bs") (simp_all add: tool_in_def bs on_tool_def)
    show ?thesis using True o t by (simp add: bs)
  qed
qed

lemma find_modifyToolBlock:
  "(\<And>t. tool_id (f t) = tool_id t) \<Longrightarrow>
   findToolBlockById tid (modifyToolBlock tid f s) = map_option f (findToolBlockById tid s)"
  by (simp add: findToolBlockById_def modifyToolBlock_def find_owner_modify_owner)

lemma find_Some_P: "find P xs = Some x \<Longrightarrow> P x \<and> x \<in> set xs"
  by (induction xs) (auto split: if_splits)

lemma find_append_None: "find P xs = None \<Longrightarrow> find P (xs @ ys) = find P ys"
  by (induction xs) (auto split: if_splits)

lemma owner_has_tool: "owns_tool tid m \<Longrightarrow> tool_in tid m \<noteq> None"
proof -
  assume o: "owns_tool tid m"
  then obtain bs where bs: "content m = Blocks bs" and ex: "\<exists>b \<in> set bs. is_tool tid b"
    by (cases "content m") (auto simp: owns_tool_def)
  then obtain b where b: "find (is_tool tid) bs = Some b"
    by (cases "find (is_tool tid) bs") (auto simp: find_None_iff_set)
  then have "is_tool tid b" using find_Some_P by fast
  then have "tool b \<noteq> None" by (auto simp: is_tool_def split: option.splits)
  then show ?thesis using b bs by (simp add: tool_in_def)
qed

lemma find_owner_None: "(find_owner tid msgs = None) = (\<forall>m \<in> set msgs. \<not> owns_tool tid m)"
proof (induction msgs)
  case Nil
  show ?case by simp
next
  case (Cons m rest)
  show ?case using Cons owner_has_tool[of tid m] by auto
qed

lemma modify_owner_none: "\<forall>m \<in> set msgs. \<not> owns_tool tid m \<Longrightarrow> modify_owner tid f msgs = msgs"
  by (induction msgs) auto

lemma modifyToolBlock_unknown:
  "findToolBlockById tid s = None \<Longrightarrow> messages (modifyToolBlock tid f s) = messages s"
  by (simp add: findToolBlockById_def modifyToolBlock_def find_owner_None modify_owner_none)

lemma subagent_call_cong:
  "messages s' = messages s \<Longrightarrow> childToolToParent s' = childToolToParent s \<Longrightarrow>
   subagent_call c s' = subagent_call c s"
  by (simp add: subagent_call_def findToolBlockById_def cong: option.case_cong if_cong)

lemma findToolBlockById_cong:
  "messages s' = messages s \<Longrightarrow> findToolBlockById tid s' = findToolBlockById tid s"
  by (simp add: findToolBlockById_def)

lemma subagent_target_call:
  "subagent_target c s = (if subagent_call c s = None then None else childToolToParent s c)"
  by (auto simp: subagent_target_def subagent_call_def find_None_iff_set split: option.splits)

lemma getSubagentToolResult_call:
  "getSubagentToolResult c s = (case subagent_call c s of None \<Rightarrow> None | Some x \<Rightarrow> sub_result x)"
  by (simp add: getSubagentToolResult_def subagent_call_def split: option.splits)

lemma subagent_call_modify_call:
  assumes "subagent_call c s = Some x" "childToolToParent s c = Some p" "\<And>y. sub_id (g y) = sub_id y"
  shows "subagent_call c (modify_call p c g s) = Some (g x)"
proof -
  from assms(1,2) obtain pt cs where p: "p \<noteq> []" and pt: "findToolBlockById p s = Some pt"
    and cs: "subagentCalls pt = Some cs" and x: "find (\<lambda>y. sub_id y = c) cs = Some x"
    by (auto simp: subagent_call_def split: option.splits if_splits)
  let ?F = "\<lambda>pt. pt\<lparr>subagentCalls := map_option (modify_first (\<lambda>y. sub_id y = c) g) (subagentCalls pt)\<rparr>"
  have "findToolBlockById p (modify_call p c g s) = map_option ?F (findToolBlockById p s)"
    unfolding modify_call_def by (rule find_modifyToolBlock) simp
  then have f: "findToolBlockById p (modify_call p c g s) = Some (?F pt)" using pt by simp
  have "find (\<lambda>y. sub_id y = c) (modify_first (\<lambda>y. sub_id y = c) g cs) = map_option g (find (\<lambda>y. sub_id y = c) cs)"
    by (rule find_modify_first) (simp add: assms(3))
  then show ?thesis
    using f p cs x assms(2) by (simp add: subagent_call_def cmap_frame)
qed

lemma subagent_call_placeholder:
  assumes "p \<noteq> []" "findToolBlockById p s = Some pt" "childToolToParent s c = None" "\<not> has_call c pt"
  shows "subagent_call c (ensure_placeholder_if_unmapped p c s) = Some (placeholder c)"
    and "childToolToParent (ensure_placeholder_if_unmapped p c s) c = Some p"
proof -
  let ?F = "\<lambda>pt. pt\<lparr>subagentCalls := Some (calls_of pt @ [placeholder c])\<rparr>"
  let ?s1 = "s\<lparr>childToolToParent := (childToolToParent s)(c \<mapsto> p)\<rparr>"
  have e: "ensure_placeholder_if_unmapped p c s = modifyToolBlock p ?F ?s1"
    using assms by (simp add: ensure_placeholder_if_unmapped_def ensureSubagentToolPlaceholder_def placeholder_def)
  have "findToolBlockById p (modifyToolBlock p ?F ?s1) = map_option ?F (findToolBlockById p ?s1)"
    by (rule find_modifyToolBlock) simp
  moreover have "findToolBlockById p ?s1 = Some pt"
    using assms(2) by (simp add: findToolBlockById_def)
  ultimately have f: "findToolBlockById p (ensure_placeholder_if_unmapped p c s) = Some (?F pt)"
    by (simp add: e)
  have n: "find (\<lambda>y. sub_id y = c) (calls_of pt) = None"
    using assms(4) by (simp add: has_call_def find_None_iff_set)
  have fa: "find (\<lambda>y. sub_id y = c) (calls_of pt @ [placeholder c]) = Some (placeholder c)"
    using n by (simp add: find_append_None placeholder_def)
  show m: "childToolToParent (ensure_placeholder_if_unmapped p c s) c = Some p"
    by (simp add: e cmap_frame)
  show "subagent_call c (ensure_placeholder_if_unmapped p c s) = Some (placeholder c)"
    using f m assms(1) fa by (simp add: subagent_call_def)
qed

lemma find_modify_first_other:
  "(\<And>x. P x \<Longrightarrow> \<not> Q x \<and> \<not> Q (g x)) \<Longrightarrow> find Q (modify_first P g xs) = find Q xs"
  by (induction xs) auto

lemma is_tool_unique: "is_tool r b \<Longrightarrow> is_tool q b \<Longrightarrow> q = r"
  by (auto simp: is_tool_def split: option.splits)

lemma find_owner_modify_other:
  assumes "q \<noteq> r" "\<And>t. tool_id (f t) = tool_id t"
  shows "find_owner q (modify_owner r f msgs) = find_owner q msgs"
proof (induction msgs)
  case Nil
  show ?case by simp
next
  case (Cons m rest)
  show ?case
  proof (cases "owns_tool r m")
    case False
    then show ?thesis using Cons by simp
  next
    case True
    then obtain bs where bs: "content m = Blocks bs" and r: "role m = Assistant"
      by (cases "content m") (auto simp: owns_tool_def)
    let ?bs' = "modify_first (is_tool r) (on_tool f) bs"
    let ?m' = "m\<lparr>content := Blocks ?bs'\<rparr>"
    have nq: "\<not> is_tool q x \<and> \<not> is_tool q (on_tool f x)" if "is_tool r x" for x
      using that assms(1) is_tool_unique[of r x q] is_tool_on_tool[OF assms(2), of q x] by auto
    have f: "find (is_tool q) ?bs' = find (is_tool q) bs"
      by (rule find_modify_first_other) (rule nq)
    have "(\<exists>b \<in> set ?bs'. is_tool q b) = (\<exists>b \<in> set bs. is_tool q b)"
      using f find_None_iff_set[of "is_tool q" ?bs'] find_None_iff_set[of "is_tool q" bs] by auto
    then have o: "owns_tool q ?m' = owns_tool q m"
      by (simp add: owns_tool_def bs r)
    have t: "tool_in q ?m' = tool_in q m" using f by (simp add: tool_in_def bs)
    show ?thesis using True o t by (simp add: bs)
  qed
qed

lemma find_modifyToolBlock_other:
  "q \<noteq> r \<Longrightarrow> (\<And>t. tool_id (f t) = tool_id t) \<Longrightarrow>
   findToolBlockById q (modifyToolBlock r f s) = findToolBlockById q s"
  by (simp add: findToolBlockById_def modifyToolBlock_def find_owner_modify_other)

lemma find_append_Some: "find P xs = Some a \<Longrightarrow> find P (xs @ ys) = Some a"
  by (induction xs) (auto split: if_splits)

lemma same_view_refl [simp]: "same_view c s s"
  by (simp add: same_view_def)

lemma same_view_trans: "same_view c s s1 \<Longrightarrow> same_view c s1 s2 \<Longrightarrow> same_view c s s2"
  by (simp add: same_view_def)

lemma same_view_cong:
  "messages s' = messages s \<Longrightarrow> childToolToParent s' c = childToolToParent s c \<Longrightarrow> same_view c s s'"
  by (simp add: same_view_def findToolBlockById_def)

lemma same_view_modifyToolBlock:
  assumes "\<And>t. tool_id (f t) = tool_id t" "\<And>t. entry c (f t) = entry c t"
  shows "same_view c s (modifyToolBlock r f s)"
proof -
  have "map_option (entry c) (findToolBlockById q (modifyToolBlock r f s))
          = map_option (entry c) (findToolBlockById q s)" for q
  proof (cases "q = r")
    case True
    then show ?thesis
      using find_modifyToolBlock[of f r s, OF assms(1)] assms(2)
      by (cases "findToolBlockById r s") simp_all
  next
    case False
    then show ?thesis using find_modifyToolBlock_other[OF False assms(1)] by simp
  qed
  then show ?thesis by (simp add: same_view_def cmap_frame)
qed

lemma same_view_call:
  "same_view c s s' \<Longrightarrow> subagent_call c s' = subagent_call c s"
proof -
  assume v: "same_view c s s'"
  have e: "subagent_call c s0 =
        (case childToolToParent s0 c of
           None \<Rightarrow> None
         | Some p \<Rightarrow> if p = [] then None
                     else (case map_option (entry c) (findToolBlockById p s0) of
                             None \<Rightarrow> None | Some r \<Rightarrow> r))" for s0
    by (simp add: subagent_call_def entry_def calls_of_def split: option.splits)
  have m: "childToolToParent s' c = childToolToParent s c"
    and f: "map_option (entry c) (findToolBlockById q s') = map_option (entry c) (findToolBlockById q s)" for q
    using v by (simp_all add: same_view_def)
  show ?thesis unfolding e m f ..
qed

lemma has_call_entry: "has_call c t = (entry c t \<noteq> None)"
  by (simp add: has_call_def entry_def find_None_iff_set)

lemma same_view_block:
  assumes "same_view c s s'" "findToolBlockById p s = Some pt"
  shows "\<exists>pt'. findToolBlockById p s' = Some pt' \<and> has_call c pt' = has_call c pt"
proof -
  have "map_option (entry c) (findToolBlockById p s') = Some (entry c pt)"
    using assms by (simp add: same_view_def)
  then show ?thesis by (auto simp: has_call_entry)
qed

lemma same_view_none:
  "same_view c s s' \<Longrightarrow> (findToolBlockById q s' = None) = (findToolBlockById q s = None)"
  by (metis same_view_def option.map_disc_iff)

lemma same_view_map: "same_view c s s' \<Longrightarrow> childToolToParent s' c = childToolToParent s c"
  by (simp add: same_view_def)

lemma entry_frames:
  "entry c (t\<lparr>result := r\<rparr>) = entry c t"
  "entry c (t\<lparr>isError := ie\<rparr>) = entry c t"
  "d \<noteq> c \<Longrightarrow> sub_id y = d \<Longrightarrow> entry c (t\<lparr>subagentCalls := Some (calls_of t @ [y])\<rparr>) = entry c t"
  "d \<noteq> c \<Longrightarrow> (\<And>y. sub_id (g y) = sub_id y) \<Longrightarrow>
     entry c (t\<lparr>subagentCalls := map_option (modify_first (\<lambda>x. sub_id x = d) g) (subagentCalls t)\<rparr>) = entry c t"
  "d \<noteq> c \<Longrightarrow> (\<And>y. sub_id (g y) = sub_id y) \<Longrightarrow>
     entry c (t\<lparr>subagentCalls := Some (modify_first (\<lambda>x. sub_id x = d) g (calls_of t))\<rparr>) = entry c t"
proof -
  show "entry c (t\<lparr>result := r\<rparr>) = entry c t" by (simp add: entry_def calls_of_def)
  show "entry c (t\<lparr>isError := ie\<rparr>) = entry c t" by (simp add: entry_def calls_of_def)
  show "entry c (t\<lparr>subagentCalls := Some (calls_of t @ [y])\<rparr>) = entry c t"
    if "d \<noteq> c" "sub_id y = d"
  proof (cases "find (\<lambda>x. sub_id x = c) (calls_of t)")
    case None
    then show ?thesis using that by (simp add: entry_def calls_of_def find_append_None)
  next
    case (Some a)
    then have "find (\<lambda>x. sub_id x = c) (calls_of t @ [y]) = Some a"
      by (rule find_append_Some)
    then show ?thesis using Some by (simp add: entry_def calls_of_def)
  qed
  have m: "find (\<lambda>x. sub_id x = c) (modify_first (\<lambda>x. sub_id x = d) g cs) = find (\<lambda>x. sub_id x = c) cs"
    if "d \<noteq> c" "\<And>y. sub_id (g y) = sub_id y" for cs
    by (rule find_modify_first_other) (use that in auto)
  show "entry c (t\<lparr>subagentCalls := map_option (modify_first (\<lambda>x. sub_id x = d) g) (subagentCalls t)\<rparr>) = entry c t"
    if "d \<noteq> c" "\<And>y. sub_id (g y) = sub_id y"
    using m[OF that] by (cases "subagentCalls t") (simp_all add: entry_def calls_of_def)
  show "entry c (t\<lparr>subagentCalls := Some (modify_first (\<lambda>x. sub_id x = d) g (calls_of t))\<rparr>) = entry c t"
    if "d \<noteq> c" "\<And>y. sub_id (g y) = sub_id y"
    using m[OF that] by (simp add: entry_def calls_of_def)
qed

subsection \<open>Tool results for unknown tool ids\<close>

lemma result_start_placeholder:
  assumes "parent_tool_use_id m = Some p" "p \<noteq> []" "findToolBlockById p s = Some pt"
    "childToolToParent s c = None" "\<not> has_call c pt" "stream_contentStr rc \<noteq> []"
  shows "subagent_call c (result_start_v2 m i c rc e s) =
           Some ((placeholder c)\<lparr>sub_result := Some (stream_contentStr rc),
                   sub_isError := Some (is_true e), sub_isLoading := Some True\<rparr>)"
    and "childToolToParent (result_start_v2 m i c rc e s) c = Some p"
proof -
  let ?s1 = "s\<lparr>toolResultIndexToId := (toolResultIndexToId s)(i \<mapsto> c)\<rparr>"
  let ?s2 = "ensure_placeholder_if_unmapped p c ?s1"
  let ?ev = "VObj [(''parentToolUseId'', VStr p), (''toolUseId'', VStr c),
                   (''content'', VStr (stream_contentStr rc)), (''isError'', VBool (is_true e))]"
  let ?s3 = "broadcast ''chat:subagent-tool-result-start'' ?ev ?s2"
  let ?G = "\<lambda>sc. sc\<lparr>sub_result := Some (stream_contentStr rc), sub_isError := Some (is_true e),
                       sub_isLoading := Some True\<rparr>"
  have f1: "findToolBlockById p ?s1 = Some pt" "childToolToParent ?s1 c = None"
    using assms(3,4) by (simp_all add: findToolBlockById_def)
  have c2: "subagent_call c ?s2 = Some (placeholder c)" and m2: "childToolToParent ?s2 c = Some p"
    using subagent_call_placeholder[OF assms(2) f1(1) f1(2) assms(5)] by simp_all
  have c3: "subagent_call c ?s3 = Some (placeholder c)" and m3: "childToolToParent ?s3 c = Some p"
    using c2 m2 subagent_call_cong[of ?s3 ?s2 c] by simp_all
  have t3: "subagent_target c ?s3 = Some p" using c3 m3 by (simp add: subagent_target_call)
  have r: "result_parent m c ?s1 = Some p" using assms(1,4) by (simp add: result_parent_def)
  have e: "result_start_v2 m i c rc e s = modify_call p c ?G ?s3"
    using assms(2,6) r t3
    by (simp add: result_start_v2_def Let_def truthy_def or_empty_def handleToolResultStart_def
        handleSubagentToolResultStart_def)
  show "subagent_call c (result_start_v2 m i c rc e s) = Some (?G (placeholder c))"
    unfolding e by (rule subagent_call_modify_call[OF c3 m3]) simp
  show "childToolToParent (result_start_v2 m i c rc e s) c = Some p"
    unfolding e using m3 by (simp add: cmap_frame)
qed

lemma user_result_placeholder:
  assumes "parent_tool_use_id m = Some p" "p \<noteq> []" "findToolBlockById p s = Some pt"
    "childToolToParent s c = None" "\<not> has_call c pt"
  shows "subagent_call c (user_block_v2 m s (MToolResult c rc e)) =
           Some ((placeholder c)\<lparr>sub_result := Some (user_contentStr rc), sub_isLoading := Some False\<rparr>)"
    and "childToolToParent (user_block_v2 m s (MToolResult c rc e)) c = Some p"
proof -
  let ?s2 = "ensure_placeholder_if_unmapped p c s"
  let ?ev = "VObj [(''parentToolUseId'', VStr p), (''toolUseId'', VStr c),
                   (''content'', VStr (user_contentStr rc))]"
  let ?s3 = "broadcast ''chat:subagent-tool-result-complete'' ?ev ?s2"
  let ?G = "\<lambda>sc. sc\<lparr>sub_result := Some (user_contentStr rc), sub_isLoading := Some False\<rparr>"
  have c2: "subagent_call c ?s2 = Some (placeholder c)" and m2: "childToolToParent ?s2 c = Some p"
    using subagent_call_placeholder[OF assms(2,3,4,5)] by simp_all
  have c3: "subagent_call c ?s3 = Some (placeholder c)" and m3: "childToolToParent ?s3 c = Some p"
    using c2 m2 subagent_call_cong[of ?s3 ?s2 c] by simp_all
  have t3: "subagent_target c ?s3 = Some p" using c3 m3 by (simp add: subagent_target_call)
  have r: "result_parent m c s = Some p" using assms(1,4) by (simp add: result_parent_def)
  have e: "user_block_v2 m s (MToolResult c rc e) = modify_call p c ?G ?s3"
    using assms(2) r t3
    by (simp add: user_block_v2_def Let_def truthy_def or_empty_def handleToolResultComplete_def
        handleSubagentToolResultComplete_def)
  show "subagent_call c (user_block_v2 m s (MToolResult c rc e)) = Some (?G (placeholder c))"
    unfolding e by (rule subagent_call_modify_call[OF c3 m3]) simp
  show "childToolToParent (user_block_v2 m s (MToolResult c rc e)) c = Some p"
    unfolding e using m3 by (simp add: cmap_frame)
qed

lemma result_delta_appends:
  assumes "subagent_call c s = Some x" "childToolToParent s c = Some p" "c \<noteq> []" "is_result_delta c m"
  shows "subagent_call c (dispatch_v2 cfg now m s) =
           Some (x\<lparr>sub_result := Some (or_empty (sub_result x) @ delta_text m), sub_isLoading := Some True\<rparr>)"
    and "childToolToParent (dispatch_v2 cfg now m s) c = Some p"
proof -
  from assms(4) obtain i t where b: "body m = StreamEvent (ContentBlockDelta i (TextDelta t))"
    and pm: "parent_tool_use_id m = Some c"
    by (auto simp: is_result_delta_def split: sdk_body.splits stream_event.splits delta.splits)
  have dt: "delta_text m = t" by (simp add: delta_text_def b)
  have pne: "p \<noteq> []" using assms(1,2) by (auto simp: subagent_call_def split: if_splits)
  let ?ev = "VObj [(''parentToolUseId'', VStr p), (''toolUseId'', VStr c), (''delta'', VStr t)]"
  let ?s1 = "broadcast ''chat:subagent-tool-result-delta'' ?ev s"
  let ?G = "\<lambda>sc. sc\<lparr>sub_result := Some (or_empty (sub_result sc) @ t), sub_isLoading := Some True\<rparr>"
  have c1: "subagent_call c ?s1 = Some x" and m1: "childToolToParent ?s1 c = Some p"
    using assms(1,2) subagent_call_cong[of ?s1 s c] by simp_all
  have t1: "subagent_target c ?s1 = Some p" using c1 m1 by (simp add: subagent_target_call)
  have e: "dispatch_v2 cfg now m s = modify_call p c ?G ?s1"
    using b pm assms(2,3) pne t1
    by (simp add: dispatch_v2_def text_delta_v2_def Let_def truthy_def or_empty_def
        appendToolResultDelta_def appendSubagentToolResultDelta_def)
  show "subagent_call c (dispatch_v2 cfg now m s) =
           Some (x\<lparr>sub_result := Some (or_empty (sub_result x) @ delta_text m), sub_isLoading := Some True\<rparr>)"
    unfolding e dt by (rule subagent_call_modify_call[OF c1 m1]) simp
  show "childToolToParent (dispatch_v2 cfg now m s) c = Some p"
    unfolding e using m1 by (simp add: cmap_frame)
qed

lemma result_deltas_accumulate:
  "subagent_call c s = Some x \<Longrightarrow> childToolToParent s c = Some p \<Longrightarrow> c \<noteq> [] \<Longrightarrow>
   \<forall>m \<in> set msgs. is_result_delta c (snd m) \<Longrightarrow>
   or_empty (getSubagentToolResult c (apply_messages cfg msgs s))
     = or_empty (sub_result x) @ concat (map (\<lambda>m. delta_text (snd m)) msgs)
   \<and> subagent_call c (apply_messages cfg msgs s) \<noteq> None
   \<and> childToolToParent (apply_messages cfg msgs s) c = Some p"
proof (induction msgs arbitrary: s x)
  case Nil
  then show ?case by (simp add: getSubagentToolResult_call)
next
  case (Cons m rest)
  let ?x' = "x\<lparr>sub_result := Some (or_empty (sub_result x) @ delta_text (snd m)), sub_isLoading := Some True\<rparr>"
  have d: "is_result_delta c (snd m)" using Cons.prems(4) by simp
  have 1: "subagent_call c (dispatch_v2 cfg (fst m) (snd m) s) = Some ?x'"
    by (rule result_delta_appends(1)[OF Cons.prems(1,2,3) d])
  have 2: "childToolToParent (dispatch_v2 cfg (fst m) (snd m) s) c = Some p"
    by (rule result_delta_appends(2)[OF Cons.prems(1,2,3) d])
  have 3: "\<forall>m \<in> set rest. is_result_delta c (snd m)" using Cons.prems(4) by simp
  show ?case using Cons.IH[OF 1 2 Cons.prems(3) 3] by (simp add: or_empty_def)
qed

lemma unknown_delta_dropped:
  assumes "is_result_delta c m" "c \<noteq> []" "childToolToParent s c = None" "findToolBlockById c s = None"
  shows "messages (dispatch_v2 cfg now m s) = messages s"
    and "childToolToParent (dispatch_v2 cfg now m s) = childToolToParent s"
proof -
  from assms(1) obtain i t where b: "body m = StreamEvent (ContentBlockDelta i (TextDelta t))"
    and pm: "parent_tool_use_id m = Some c"
    by (auto simp: is_result_delta_def split: sdk_body.splits stream_event.splits delta.splits)
  let ?s1 = "broadcast ''chat:tool-result-delta'' (VObj [(''toolUseId'', VStr c), (''delta'', VStr t)]) s"
  have f: "findToolBlockById c ?s1 = None" using assms(4) by (simp add: findToolBlockById_def)
  have e: "dispatch_v2 cfg now m s =
             modifyToolBlock c (\<lambda>tl. tl\<lparr>result := Some (or_empty (result tl) @ t)\<rparr>) ?s1"
    using b pm assms(2,3)
    by (simp add: dispatch_v2_def text_delta_v2_def Let_def truthy_def or_empty_def
        appendToolResultDelta_def appendSubagentToolResultDelta_def subagent_target_def)
  show "messages (dispatch_v2 cfg now m s) = messages s"
    unfolding e using modifyToolBlock_unknown[OF f] by simp
  show "childToolToParent (dispatch_v2 cfg now m s) = childToolToParent s"
    unfolding e by (simp add: cmap_frame)
qed

lemma unparented_start_dropped:
  assumes "\<not> truthy (parent_tool_use_id m) \<or> findToolBlockById (or_empty (parent_tool_use_id m)) s = None"
    "childToolToParent s c = None" "findToolBlockById c s = None"
  shows "messages (result_start_v2 m i c rc e s) = messages s"
    and "childToolToParent (result_start_v2 m i c rc e s) = childToolToParent s"
proof -
  let ?s1 = "s\<lparr>toolResultIndexToId := (toolResultIndexToId s)(i \<mapsto> c)\<rparr>"
  have f: "findToolBlockById q ?s1 = findToolBlockById q s" for q
    by (simp add: findToolBlockById_def)
  have p: "ensure_placeholder_if_unmapped (or_empty (parent_tool_use_id m)) c ?s1 = ?s1"
    if "findToolBlockById (or_empty (parent_tool_use_id m)) s = None"
    using that f by (simp add: ensure_placeholder_if_unmapped_def ensureSubagentToolPlaceholder_def)
  have t: "subagent_target c (broadcast ev d ?s1) = None" for ev d
    using assms(2) by (simp add: subagent_target_def)
  have u: "messages (setToolResult c x y (broadcast ev d ?s1)) = messages s" for x y ev d
    unfolding setToolResult_def
    using modifyToolBlock_unknown[of c "broadcast ev d ?s1"] assms(3) by (simp add: findToolBlockById_def)
  have r: "result_parent m c ?s1 = parent_tool_use_id m"
    using assms(2) by (simp add: result_parent_def)
  show "messages (result_start_v2 m i c rc e s) = messages s"
    using assms(1) p t u r
    by (auto simp: result_start_v2_def Let_def handleToolResultStart_def handleSubagentToolResultStart_def)
  show "childToolToParent (result_start_v2 m i c rc e s) = childToolToParent s"
    using assms(1) p r
    by (auto simp: result_start_v2_def Let_def cmap_frame)
qed

lemma cmap_v1 [cmap_frame]:
  "childToolToParent (handleToolResult_v1 now tid c0 e s) = childToolToParent s"
  by (simp add: handleToolResult_v1_def cmap_frame)

lemma cmap_v1_block: "childToolToParent (assistant_result_v1 now s b) = childToolToParent s"
  by (cases b) (simp_all add: assistant_result_v1_def cmap_frame)

lemma cmap_foldl: "(\<And>s b. childToolToParent (f s b) = childToolToParent (s :: session)) \<Longrightarrow>
  childToolToParent (foldl f s bs) = childToolToParent s"
  by (induction bs arbitrary: s) auto

lemma cmap_dispatch_v1: "childToolToParent (dispatch_v1 cfg now m s) = childToolToParent s"
  by (simp add: dispatch_v1_def Let_def cmap_frame cmap_foldl cmap_v1_block
      split: sdk_body.splits stream_event.splits delta.splits start_block.splits option.splits msg_content.splits)

lemma keep_loop_body:
  assumes "childToolToParent s c = Some p" "\<not> redeclares c p m"
  shows "loop_body cfg now m s = Continue s' \<Longrightarrow> childToolToParent s' c = Some p"
    and "loop_body cfg now m s = Break s' \<Longrightarrow> childToolToParent s' c = Some p"
  using assms keep_dispatch_v2[of "preamble_v2 now m s" c p m cfg now]
  by (auto simp: loop_body_def Let_def cmap_dispatch_v1 keep_preamble split: version.splits if_splits)

lemma cmap_control:
  "childToolToParent (snd (enqueueUserMessage v now t s)) = childToolToParent s"
  "childToolToParent (run_finally rp s) = childToolToParent s"
  "childToolToParent (run_catch now e s) = childToolToParent s"
  "childToolToParent (snd (interruptCurrentResponse s)) = childToolToParent s"
  "childToolToParent (interrupt_rejected s) = childToolToParent s"
  by (simp_all add: enqueueUserMessage_def run_finally_def run_catch_def handleMessageError_def
      interruptCurrentResponse_def interrupt_rejected_def Let_def
      split: version.splits option.splits list.splits)

lemma cmap_interrupt_resolved:
  "childToolToParent (interrupt_resolved now s) = childToolToParent s"
proof -
  have "childToolToParent (handleMessageStopped now s0) = childToolToParent s0" for s0
    by (simp add: handleMessageStopped_def Let_def cmap_frame split: Content.splits)
  then show ?thesis by (simp add: interrupt_resolved_def Let_def)
qed

lemma keep_exec:
  assumes "childToolToParent s c = Some p" "\<not> action_redeclares c p a" "exec cfg a s = Some s'"
  shows "childToolToParent s' c = Some p"
proof (cases a)
  case (RuntimeMessage rp now m)
  then have n: "\<not> redeclares c p m" using assms(2) by (simp add: action_redeclares_def)
  show ?thesis
  proof (cases "loop_body cfg now m s")
    case (Continue s1)
    then show ?thesis using assms RuntimeMessage keep_loop_body(1)[OF assms(1) n Continue]
      by (auto simp: exec_def split: if_splits)
  next
    case (Break s1)
    then show ?thesis using assms RuntimeMessage keep_loop_body(2)[OF assms(1) n Break]
      by (auto simp: exec_def cmap_control split: if_splits)
  qed
next
  case (FeedNext g)
  then have "a = FeedNext g \<or> a = FeedTimer g \<or> a = FeedResume g" by simp
  from feed_exec(7)[OF assms(3) this] show ?thesis using assms(1) by simp
next
  case (FeedTimer g)
  then have "a = FeedNext g \<or> a = FeedTimer g \<or> a = FeedResume g" by simp
  from feed_exec(7)[OF assms(3) this] show ?thesis using assms(1) by simp
next
  case (FeedResume g)
  then have "a = FeedNext g \<or> a = FeedTimer g \<or> a = FeedResume g" by simp
  from feed_exec(7)[OF assms(3) this] show ?thesis using assms(1) by simp
qed (use assms in \<open>auto simp: exec_def cmap_control cmap_interrupt_resolved split: if_splits\<close>)

lemma keep_exec_all:
  "childToolToParent s c = Some p \<Longrightarrow> \<forall>a \<in> set acts. \<not> action_redeclares c p a \<Longrightarrow>
   exec_all cfg acts s = Some s' \<Longrightarrow> childToolToParent s' c = Some p"
proof (induction acts arbitrary: s)
  case Nil
  then show ?case by simp
next
  case (Cons a acts)
  from Cons.prems(3) obtain s1 where e: "exec cfg a s = Some s1" and r: "exec_all cfg acts s1 = Some s'"
    by (auto split: option.splits)
  have "childToolToParent s1 c = Some p"
    using keep_exec[OF Cons.prems(1) _ e] Cons.prems(2) by simp
  then show ?case using Cons.IH[OF _ _ r] Cons.prems(2) by simp
qed

lemma learned_by_tool_use:
  "findToolBlockById q s = Some pt \<Longrightarrow>
   childToolToParent (handleSubagentToolUseStart q tp s) (p_id tp) = Some q"
  by (simp add: cmap_use_start)

lemma routed_to_learned: "childToolToParent s c = Some p \<Longrightarrow> result_parent m c s = Some p"
  by (simp add: result_parent_def)

lemma tool_use_after_placeholder:
  assumes "subagent_call c s = Some x" "childToolToParent s c = Some p" "p_id tp = c"
  shows "subagent_call c (handleSubagentToolUseStart p tp s) =
           Some (x\<lparr>sub_name := p_name tp, sub_input := p_input tp, sub_streamIndex := p_streamIndex tp\<rparr>)"
proof -
  from assms(1,2) obtain pt cs where p: "p \<noteq> []" and pt: "findToolBlockById p s = Some pt"
    and cs: "subagentCalls pt = Some cs" and x: "find (\<lambda>y. sub_id y = c) cs = Some x"
    by (auto simp: subagent_call_def split: option.splits if_splits)
  let ?upd = "\<lambda>y. y\<lparr>sub_name := p_name tp, sub_input := p_input tp, sub_streamIndex := p_streamIndex tp\<rparr>"
  let ?F = "\<lambda>pt. if has_call (p_id tp) pt
                  then pt\<lparr>subagentCalls := Some (modify_first (\<lambda>c. sub_id c = p_id tp) ?upd (calls_of pt))\<rparr>
                  else pt\<lparr>subagentCalls := Some (calls_of pt @
                            [\<lparr>sub_id = p_id tp, sub_name = p_name tp, sub_input = p_input tp,
                              sub_streamIndex = p_streamIndex tp, sub_inputJson = Some (p_input tp),
                              sub_parsedInput = None, sub_result = None,
                              sub_isLoading = Some True, sub_isError = None\<rparr>])\<rparr>"
  let ?s1 = "s\<lparr>childToolToParent := (childToolToParent s)(p_id tp \<mapsto> p)\<rparr>"
  have e: "handleSubagentToolUseStart p tp s = modifyToolBlock p ?F ?s1"
    using pt by (simp add: handleSubagentToolUseStart_def)
  have "findToolBlockById p (modifyToolBlock p ?F ?s1) = map_option ?F (findToolBlockById p ?s1)"
    by (rule find_modifyToolBlock) simp
  moreover have "findToolBlockById p ?s1 = Some pt" using pt by (simp add: findToolBlockById_def)
  ultimately have f: "findToolBlockById p (handleSubagentToolUseStart p tp s) = Some (?F pt)"
    by (simp add: e)
  have h: "has_call (p_id tp) pt"
    using x cs assms(3) find_Some_P[OF x] by (auto simp: has_call_def calls_of_def)
  have fm: "find (\<lambda>y. sub_id y = c) (modify_first (\<lambda>y. sub_id y = c) ?upd cs)
              = map_option ?upd (find (\<lambda>y. sub_id y = c) cs)"
    by (rule find_modify_first) simp
  have m: "childToolToParent (handleSubagentToolUseStart p tp s) c = Some p"
    using assms(2,3) by (simp add: e cmap_frame)
  show ?thesis
    using f h fm x cs p m assms(3) by (simp add: subagent_call_def calls_of_def)
qed

lemma dispatch_result_start:
  "body m = StreamEvent (ContentBlockStart i (StartResult ty (Some c) rc e)) \<Longrightarrow>
   dispatch_v2 cfg now m s = result_start_v2 m i c rc e s"
  by (simp add: dispatch_v2_def)

lemma sv_broadcast: "same_view c s (broadcast ev d s)"
  by (rule same_view_cong) simp_all

lemma sv_setToolResult: "same_view c s (setToolResult t x e s)"
  unfolding setToolResult_def
  by (rule same_view_modifyToolBlock) (simp_all add: entry_frames split: option.splits)

lemma sv_modify_call:
  "d \<noteq> c \<Longrightarrow> (\<And>y. sub_id (g y) = sub_id y) \<Longrightarrow> same_view c s (modify_call p d g s)"
  unfolding modify_call_def
  by (rule same_view_modifyToolBlock) (simp_all add: entry_frames)

lemma sv_map_other:
  "d \<noteq> c \<Longrightarrow> same_view c s (s\<lparr>childToolToParent := (childToolToParent s)(d \<mapsto> p)\<rparr>)"
  by (rule same_view_cong) simp_all

lemma sv_ensure:
  assumes "d \<noteq> c"
  shows "same_view c s (ensureSubagentToolPlaceholder p d s)"
proof (cases "findToolBlockById p s")
  case None
  then show ?thesis by (simp add: ensureSubagentToolPlaceholder_def)
next
  case (Some pt)
  show ?thesis
  proof (cases "has_call d pt")
    case True
    then show ?thesis using Some by (simp add: ensureSubagentToolPlaceholder_def)
  next
    case False
    let ?s1 = "s\<lparr>childToolToParent := (childToolToParent s)(d \<mapsto> p)\<rparr>"
    have "same_view c ?s1 (modifyToolBlock p
             (\<lambda>pt. pt\<lparr>subagentCalls := Some (calls_of pt @ [placeholder d])\<rparr>) ?s1)"
      by (rule same_view_modifyToolBlock)
         (use assms in \<open>simp_all add: entry_frames(3)[of d c] placeholder_def\<close>)
    then show ?thesis
      using Some False same_view_trans[OF sv_map_other[OF assms, of s p]]
      by (simp add: ensureSubagentToolPlaceholder_def)
  qed
qed

lemma sv_ensure_if: "d \<noteq> c \<Longrightarrow> same_view c s (ensure_placeholder_if_unmapped p d s)"
  by (simp add: ensure_placeholder_if_unmapped_def sv_ensure)

lemma sv_use_start:
  assumes "p_id tp \<noteq> c"
  shows "same_view c s (handleSubagentToolUseStart p tp s)"
proof (cases "findToolBlockById p s")
  case None
  then show ?thesis by (simp add: handleSubagentToolUseStart_def)
next
  case (Some pt)
  let ?s1 = "s\<lparr>childToolToParent := (childToolToParent s)(p_id tp \<mapsto> p)\<rparr>"
  let ?F = "\<lambda>pt. if has_call (p_id tp) pt
                  then pt\<lparr>subagentCalls := Some (modify_first (\<lambda>c. sub_id c = p_id tp)
                            (\<lambda>c. c\<lparr>sub_name := p_name tp, sub_input := p_input tp,
                                   sub_streamIndex := p_streamIndex tp\<rparr>) (calls_of pt))\<rparr>
                  else pt\<lparr>subagentCalls := Some (calls_of pt @
                            [\<lparr>sub_id = p_id tp, sub_name = p_name tp, sub_input = p_input tp,
                              sub_streamIndex = p_streamIndex tp, sub_inputJson = Some (p_input tp),
                              sub_parsedInput = None, sub_result = None,
                              sub_isLoading = Some True, sub_isError = None\<rparr>])\<rparr>"
  have "same_view c ?s1 (modifyToolBlock p ?F ?s1)"
    by (rule same_view_modifyToolBlock)
       (use assms in \<open>simp_all add: entry_frames(3)[of "p_id tp" c] entry_frames(5)[of "p_id tp" c]\<close>)
  then show ?thesis
    using Some same_view_trans[OF sv_map_other[OF assms, of s p]]
    by (simp add: handleSubagentToolUseStart_def)
qed

lemma sv_results:
  assumes "d \<noteq> c"
  shows "same_view c s (handleToolResultComplete d x e s)"
    and "same_view c s (handleToolResultStart d x b s)"
    and "same_view c s (appendToolResultDelta d x s)"
proof -
  show "same_view c s (handleToolResultComplete d x e s)"
    using assms
    by (auto simp: handleToolResultComplete_def handleSubagentToolResultComplete_def sv_setToolResult
        split: option.splits intro!: sv_modify_call)
  show "same_view c s (handleToolResultStart d x b s)"
    using assms
    by (auto simp: handleToolResultStart_def handleSubagentToolResultStart_def sv_setToolResult
        split: option.splits intro!: sv_modify_call)
  have "same_view c s (modifyToolBlock d (\<lambda>t. t\<lparr>result := Some (or_empty (result t) @ x)\<rparr>) s)"
    by (rule same_view_modifyToolBlock) (simp_all add: entry_frames)
  then show "same_view c s (appendToolResultDelta d x s)"
    using assms
    by (auto simp: appendToolResultDelta_def appendSubagentToolResultDelta_def
        split: option.splits intro!: sv_modify_call)
qed

lemma sv_user_block:
  assumes "\<not> is_result_for c b"
  shows "same_view c s (user_block_v2 m s b)"
proof (cases b)
  case (MToolResult d rc e)
  then have d: "d \<noteq> c" using assms by (simp add: is_result_for_def)
  show ?thesis
    unfolding MToolResult user_block_v2_def Let_def msg_block.case
    by (auto intro!: same_view_trans[OF _ sv_results(1)[OF d]] same_view_trans[OF _ sv_broadcast]
        sv_ensure_if[OF d])
qed (simp_all add: user_block_v2_def)

lemma sv_assistant_result:
  assumes "\<not> is_result_for c b"
  shows "same_view c s (assistant_result_v2 m s b)"
proof (cases b)
  case (MToolResult d rc e)
  then have d: "d \<noteq> c" using assms by (simp add: is_result_for_def)
  show ?thesis
    unfolding MToolResult assistant_result_v2_def Let_def msg_block.case
    by (auto intro!: same_view_trans[OF _ sv_results(1)[OF d]] same_view_trans[OF _ sv_broadcast]
        sv_ensure_if[OF d])
qed (simp_all add: assistant_result_v2_def)

lemma sv_assistant_tool_use:
  assumes "case b of MToolUse i n inp \<Rightarrow> i \<noteq> c | _ \<Rightarrow> True"
  shows "same_view c s (assistant_tool_use_v2 q s b)"
proof (cases b)
  case (MToolUse i n inp)
  then have d: "i \<noteq> c" using assms by simp
  show ?thesis
    unfolding MToolUse assistant_tool_use_v2_def Let_def msg_block.case
    by (rule same_view_trans[OF sv_broadcast sv_use_start]) (simp add: d)
qed (simp_all add: assistant_tool_use_v2_def)

lemma sv_assistant_text: "same_view c s (assistant_text_v2 q mc s)"
proof (cases "formatAssistantContent mc = []")
  case True
  then show ?thesis by (simp add: assistant_text_v2_def)
next
  case False
  have "same_view c s (snd (appendToolResultContent q (formatAssistantContent mc) None s))"
    by (simp add: appendToolResultContent_def Let_def sv_setToolResult)
  then show ?thesis using False
    by (cases "appendToolResultContent q (formatAssistantContent mc) None s")
       (auto simp: assistant_text_v2_def Let_def intro: same_view_trans[OF _ sv_broadcast])
qed

lemma sv_foldl:
  "(\<And>b s. b \<in> set bs \<Longrightarrow> same_view c s (f s b)) \<Longrightarrow> same_view c s (foldl f s bs)"
proof (induction bs arbitrary: s)
  case Nil
  show ?case by simp
next
  case (Cons b bs)
  have "same_view c s (f s b)" using Cons.prems by simp
  moreover have "same_view c (f s b) (foldl f (f s b) bs)" using Cons by simp
  ultimately show ?case using same_view_trans by fastforce
qed

lemma parent_nonempty: "subagent_call c s = Some x \<Longrightarrow> childToolToParent s c = Some p \<Longrightarrow> p \<noteq> []"
  by (auto simp: subagent_call_def split: if_splits)

lemma user_block_mapped:
  assumes "subagent_call c s = Some x" "childToolToParent s c = Some p"
  shows "subagent_call c (user_block_v2 m s (MToolResult c rc e)) =
           Some (x\<lparr>sub_result := Some (user_contentStr rc), sub_isLoading := Some False\<rparr>)"
    and "childToolToParent (user_block_v2 m s (MToolResult c rc e)) c = Some p"
proof -
  have pne: "p \<noteq> []" by (rule parent_nonempty[OF assms])
  let ?ev = "VObj [(''parentToolUseId'', VStr p), (''toolUseId'', VStr c),
                   (''content'', VStr (user_contentStr rc))]"
  let ?s3 = "broadcast ''chat:subagent-tool-result-complete'' ?ev s"
  let ?G = "\<lambda>sc. sc\<lparr>sub_result := Some (user_contentStr rc), sub_isLoading := Some False\<rparr>"
  have c3: "subagent_call c ?s3 = Some x" and m3: "childToolToParent ?s3 c = Some p"
    using assms subagent_call_cong[of ?s3 s c] by simp_all
  have t3: "subagent_target c ?s3 = Some p" using c3 m3 by (simp add: subagent_target_call)
  have r: "result_parent m c s = Some p" using assms(2) by (simp add: result_parent_def)
  have e: "user_block_v2 m s (MToolResult c rc e) = modify_call p c ?G ?s3"
    using pne r t3 assms(2)
    by (simp add: user_block_v2_def Let_def truthy_def or_empty_def handleToolResultComplete_def
        handleSubagentToolResultComplete_def ensure_placeholder_if_unmapped_def)
  show "subagent_call c (user_block_v2 m s (MToolResult c rc e)) = Some (?G x)"
    unfolding e by (rule subagent_call_modify_call[OF c3 m3]) simp
  show "childToolToParent (user_block_v2 m s (MToolResult c rc e)) c = Some p"
    unfolding e using m3 by (simp add: cmap_frame)
qed

lemma assistant_result_mapped:
  assumes "subagent_call c s = Some x" "childToolToParent s c = Some p"
  shows "subagent_call c (assistant_result_v2 m s (MToolResult c rc e)) =
           Some (x\<lparr>sub_result := Some (assistant_contentStr rc), sub_isError := Some (is_true e),
                   sub_isLoading := Some False\<rparr>)"
    and "childToolToParent (assistant_result_v2 m s (MToolResult c rc e)) c = Some p"
proof -
  have pne: "p \<noteq> []" by (rule parent_nonempty[OF assms])
  let ?ev = "VObj [(''parentToolUseId'', VStr p), (''toolUseId'', VStr c),
                   (''content'', VStr (assistant_contentStr rc)), (''isError'', VBool (is_true e))]"
  let ?s3 = "broadcast ''chat:subagent-tool-result-complete'' ?ev s"
  let ?G = "\<lambda>sc. sc\<lparr>sub_result := Some (assistant_contentStr rc), sub_isError := Some (is_true e),
                       sub_isLoading := Some False\<rparr>"
  have c3: "subagent_call c ?s3 = Some x" and m3: "childToolToParent ?s3 c = Some p"
    using assms subagent_call_cong[of ?s3 s c] by simp_all
  have t3: "subagent_target c ?s3 = Some p" using c3 m3 by (simp add: subagent_target_call)
  have r: "result_parent m c s = Some p" using assms(2) by (simp add: result_parent_def)
  have e: "assistant_result_v2 m s (MToolResult c rc e) = modify_call p c ?G ?s3"
    using pne r t3 assms(2)
    by (simp add: assistant_result_v2_def Let_def truthy_def or_empty_def handleToolResultComplete_def
        handleSubagentToolResultComplete_def ensure_placeholder_if_unmapped_def)
  show "subagent_call c (assistant_result_v2 m s (MToolResult c rc e)) = Some (?G x)"
    unfolding e by (rule subagent_call_modify_call[OF c3 m3]) simp
  show "childToolToParent (assistant_result_v2 m s (MToolResult c rc e)) c = Some p"
    unfolding e using m3 by (simp add: cmap_frame)
qed

lemma result_start_mapped:
  assumes "subagent_call c s = Some x" "childToolToParent s c = Some p" "stream_contentStr rc \<noteq> []"
  shows "subagent_call c (result_start_v2 m i c rc e s) =
           Some (x\<lparr>sub_result := Some (stream_contentStr rc), sub_isError := Some (is_true e),
                   sub_isLoading := Some True\<rparr>)"
    and "childToolToParent (result_start_v2 m i c rc e s) c = Some p"
proof -
  have pne: "p \<noteq> []" by (rule parent_nonempty[OF assms(1,2)])
  let ?s1 = "s\<lparr>toolResultIndexToId := (toolResultIndexToId s)(i \<mapsto> c)\<rparr>"
  let ?ev = "VObj [(''parentToolUseId'', VStr p), (''toolUseId'', VStr c),
                   (''content'', VStr (stream_contentStr rc)), (''isError'', VBool (is_true e))]"
  let ?s3 = "broadcast ''chat:subagent-tool-result-start'' ?ev ?s1"
  let ?G = "\<lambda>sc. sc\<lparr>sub_result := Some (stream_contentStr rc), sub_isError := Some (is_true e),
                       sub_isLoading := Some True\<rparr>"
  have c3: "subagent_call c ?s3 = Some x" and m3: "childToolToParent ?s3 c = Some p"
    using assms(1,2) subagent_call_cong[of ?s3 s c] by simp_all
  have t3: "subagent_target c ?s3 = Some p" using c3 m3 by (simp add: subagent_target_call)
  have r: "result_parent m c ?s1 = Some p" using assms(2) by (simp add: result_parent_def)
  have e: "result_start_v2 m i c rc e s = modify_call p c ?G ?s3"
    using pne r t3 assms(2,3)
    by (simp add: result_start_v2_def Let_def truthy_def or_empty_def handleToolResultStart_def
        handleSubagentToolResultStart_def ensure_placeholder_if_unmapped_def)
  show "subagent_call c (result_start_v2 m i c rc e s) = Some (?G x)"
    unfolding e by (rule subagent_call_modify_call[OF c3 m3]) simp
  show "childToolToParent (result_start_v2 m i c rc e s) c = Some p"
    unfolding e using m3 by (simp add: cmap_frame)
qed

lemma assistant_result_placeholder:
  assumes "parent_tool_use_id m = Some p" "p \<noteq> []" "findToolBlockById p s = Some pt"
    "childToolToParent s c = None" "\<not> has_call c pt"
  shows "subagent_call c (assistant_result_v2 m s (MToolResult c rc e)) =
           Some ((placeholder c)\<lparr>sub_result := Some (assistant_contentStr rc),
                   sub_isError := Some (is_true e), sub_isLoading := Some False\<rparr>)"
    and "childToolToParent (assistant_result_v2 m s (MToolResult c rc e)) c = Some p"
proof -
  let ?s2 = "ensure_placeholder_if_unmapped p c s"
  let ?ev = "VObj [(''parentToolUseId'', VStr p), (''toolUseId'', VStr c),
                   (''content'', VStr (assistant_contentStr rc)), (''isError'', VBool (is_true e))]"
  let ?s3 = "broadcast ''chat:subagent-tool-result-complete'' ?ev ?s2"
  let ?G = "\<lambda>sc. sc\<lparr>sub_result := Some (assistant_contentStr rc), sub_isError := Some (is_true e),
                       sub_isLoading := Some False\<rparr>"
  have c2: "subagent_call c ?s2 = Some (placeholder c)" and m2: "childToolToParent ?s2 c = Some p"
    using subagent_call_placeholder[OF assms(2,3,4,5)] by simp_all
  have c3: "subagent_call c ?s3 = Some (placeholder c)" and m3: "childToolToParent ?s3 c = Some p"
    using c2 m2 subagent_call_cong[of ?s3 ?s2 c] by simp_all
  have t3: "subagent_target c ?s3 = Some p" using c3 m3 by (simp add: subagent_target_call)
  have r: "result_parent m c s = Some p" using assms(1,4) by (simp add: result_parent_def)
  have e: "assistant_result_v2 m s (MToolResult c rc e) = modify_call p c ?G ?s3"
    using assms(2) r t3
    by (simp add: assistant_result_v2_def Let_def truthy_def or_empty_def handleToolResultComplete_def
        handleSubagentToolResultComplete_def)
  show "subagent_call c (assistant_result_v2 m s (MToolResult c rc e)) = Some (?G (placeholder c))"
    unfolding e by (rule subagent_call_modify_call[OF c3 m3]) simp
  show "childToolToParent (assistant_result_v2 m s (MToolResult c rc e)) c = Some p"
    unfolding e using m3 by (simp add: cmap_frame)
qed

lemma block_dropped:
  assumes "childToolToParent s c = None" "findToolBlockById c s = None"
    "\<not> truthy (parent_tool_use_id m) \<or> findToolBlockById (or_empty (parent_tool_use_id m)) s = None"
  shows "messages (user_block_v2 m s (MToolResult c rc e)) = messages s"
    and "childToolToParent (user_block_v2 m s (MToolResult c rc e)) = childToolToParent s"
    and "messages (assistant_result_v2 m s (MToolResult c rc e)) = messages s"
    and "childToolToParent (assistant_result_v2 m s (MToolResult c rc e)) = childToolToParent s"
proof -
  have p: "ensure_placeholder_if_unmapped (or_empty (parent_tool_use_id m)) c s = s"
    if "findToolBlockById (or_empty (parent_tool_use_id m)) s = None"
    using that by (simp add: ensure_placeholder_if_unmapped_def ensureSubagentToolPlaceholder_def)
  have t: "subagent_target c (broadcast ev d s) = None" for ev d
    using assms(1) by (simp add: subagent_target_def)
  have u: "messages (setToolResult c x y (broadcast ev d s)) = messages s" for x y ev d
    unfolding setToolResult_def
    using modifyToolBlock_unknown[of c "broadcast ev d s"] assms(2) by (simp add: findToolBlockById_def)
  have r: "result_parent m c s = parent_tool_use_id m"
    using assms(1) by (simp add: result_parent_def)
  show "messages (user_block_v2 m s (MToolResult c rc e)) = messages s"
    using assms(3) p t u r
    by (auto simp: user_block_v2_def Let_def handleToolResultComplete_def handleSubagentToolResultComplete_def)
  show "childToolToParent (user_block_v2 m s (MToolResult c rc e)) = childToolToParent s"
    using assms(3) p r by (auto simp: user_block_v2_def Let_def cmap_frame)
  show "messages (assistant_result_v2 m s (MToolResult c rc e)) = messages s"
    using assms(3) p t u r
    by (auto simp: assistant_result_v2_def Let_def handleToolResultComplete_def handleSubagentToolResultComplete_def)
  show "childToolToParent (assistant_result_v2 m s (MToolResult c rc e)) = childToolToParent s"
    using assms(3) p r by (auto simp: assistant_result_v2_def Let_def cmap_frame)
qed

lemma results_unknown_cong:
  "messages s' = messages s \<Longrightarrow> childToolToParent s' = childToolToParent s \<Longrightarrow>
   results_unknown s' bs = results_unknown s bs"
  by (simp add: results_unknown_def findToolBlockById_def cong: msg_block.case_cong)

lemma fold_dropped:
  assumes "\<not> truthy (parent_tool_use_id m) \<or> findToolBlockById (or_empty (parent_tool_use_id m)) s = None"
    "results_unknown s bs"
  shows "messages (foldl (user_block_v2 m) s bs) = messages s
         \<and> childToolToParent (foldl (user_block_v2 m) s bs) = childToolToParent s"
    and "messages (foldl (assistant_result_v2 m) s bs) = messages s
         \<and> childToolToParent (foldl (assistant_result_v2 m) s bs) = childToolToParent s"
proof -
  have step: "messages (user_block_v2 m s0 b) = messages s0
              \<and> childToolToParent (user_block_v2 m s0 b) = childToolToParent s0
              \<and> messages (assistant_result_v2 m s0 b) = messages s0
              \<and> childToolToParent (assistant_result_v2 m s0 b) = childToolToParent s0"
    if "\<not> truthy (parent_tool_use_id m) \<or> findToolBlockById (or_empty (parent_tool_use_id m)) s0 = None"
      "results_unknown s0 [b]" for s0 b
  proof (cases b)
    case (MToolResult i rc e)
    then have i: "childToolToParent s0 i = None" "findToolBlockById i s0 = None"
      using that(2) by (simp_all add: results_unknown_def)
    note bd = block_dropped[OF i that(1), of rc e]
    show ?thesis unfolding MToolResult using bd by (intro conjI)
  qed (simp_all add: user_block_v2_def assistant_result_v2_def)
  show "messages (foldl (user_block_v2 m) s bs) = messages s
         \<and> childToolToParent (foldl (user_block_v2 m) s bs) = childToolToParent s"
    using assms
  proof (induction bs arbitrary: s)
    case Nil
    show ?case by simp
  next
    case (Cons b bs)
    from Cons.prems(2) have b: "results_unknown s [b]" and r: "results_unknown s bs"
      by (simp_all add: results_unknown_def)
    note st = step[OF Cons.prems(1) b]
    have p': "\<not> truthy (parent_tool_use_id m)
              \<or> findToolBlockById (or_empty (parent_tool_use_id m)) (user_block_v2 m s b) = None"
      using Cons.prems(1) st findToolBlockById_cong[of "user_block_v2 m s b" s] by auto
    have r': "results_unknown (user_block_v2 m s b) bs"
      using r st results_unknown_cong[of "user_block_v2 m s b" s bs] by simp
    show ?case using Cons.IH[OF p' r'] st by simp
  qed
  show "messages (foldl (assistant_result_v2 m) s bs) = messages s
         \<and> childToolToParent (foldl (assistant_result_v2 m) s bs) = childToolToParent s"
    using assms
  proof (induction bs arbitrary: s)
    case Nil
    show ?case by simp
  next
    case (Cons b bs)
    from Cons.prems(2) have b: "results_unknown s [b]" and r: "results_unknown s bs"
      by (simp_all add: results_unknown_def)
    note st = step[OF Cons.prems(1) b]
    have p': "\<not> truthy (parent_tool_use_id m)
              \<or> findToolBlockById (or_empty (parent_tool_use_id m)) (assistant_result_v2 m s b) = None"
      using Cons.prems(1) st findToolBlockById_cong[of "assistant_result_v2 m s b" s] by auto
    have r': "results_unknown (assistant_result_v2 m s b) bs"
      using r st results_unknown_cong[of "assistant_result_v2 m s b" s bs] by simp
    show ?case using Cons.IH[OF p' r'] st by simp
  qed
qed

lemma user_fold_mapped:
  assumes "subagent_call c s = Some x" "childToolToParent s c = Some p"
  shows "subagent_call c (foldl (user_block_v2 m) s bs) =
           Some (case last_result_for c bs of
                   None \<Rightarrow> x
                 | Some (rc, e) \<Rightarrow> x\<lparr>sub_result := Some (user_contentStr rc), sub_isLoading := Some False\<rparr>)
         \<and> childToolToParent (foldl (user_block_v2 m) s bs) c = Some p"
  using assms
proof (induction bs arbitrary: s x)
  case Nil
  then show ?case by simp
next
  case (Cons b bs)
  show ?case
  proof (cases "is_result_for c b")
    case True
    then obtain rc e where b: "b = MToolResult c rc e"
      by (cases b) (auto simp: is_result_for_def)
    let ?x1 = "x\<lparr>sub_result := Some (user_contentStr rc), sub_isLoading := Some False\<rparr>"
    note st = user_block_mapped[OF Cons.prems, of m rc e]
    show ?thesis
      using Cons.IH[OF st[folded b]] b
      by (cases "last_result_for c bs") (auto split: prod.splits)
  next
    case False
    have v: "same_view c s (user_block_v2 m s b)" by (rule sv_user_block[OF False])
    have 1: "subagent_call c (user_block_v2 m s b) = Some x"
      using same_view_call[OF v] Cons.prems(1) by simp
    have 2: "childToolToParent (user_block_v2 m s b) c = Some p"
      using same_view_map[OF v] Cons.prems(2) by simp
    have l: "last_result_for c (b # bs) = last_result_for c bs"
      using False by (cases b) (auto simp: is_result_for_def split: option.splits)
    show ?thesis using Cons.IH[OF 1 2] l by simp
  qed
qed

lemma assistant_fold_mapped:
  assumes "subagent_call c s = Some x" "childToolToParent s c = Some p"
  shows "subagent_call c (foldl (assistant_result_v2 m) s bs) =
           Some (case last_result_for c bs of
                   None \<Rightarrow> x
                 | Some (rc, e) \<Rightarrow> x\<lparr>sub_result := Some (assistant_contentStr rc),
                                      sub_isError := Some (is_true e), sub_isLoading := Some False\<rparr>)
         \<and> childToolToParent (foldl (assistant_result_v2 m) s bs) c = Some p"
  using assms
proof (induction bs arbitrary: s x)
  case Nil
  then show ?case by simp
next
  case (Cons b bs)
  show ?case
  proof (cases "is_result_for c b")
    case True
    then obtain rc e where b: "b = MToolResult c rc e"
      by (cases b) (auto simp: is_result_for_def)
    note st = assistant_result_mapped[OF Cons.prems, of m rc e]
    show ?thesis
      using Cons.IH[OF st[folded b]] b
      by (cases "last_result_for c bs") (auto split: prod.splits)
  next
    case False
    have v: "same_view c s (assistant_result_v2 m s b)" by (rule sv_assistant_result[OF False])
    have 1: "subagent_call c (assistant_result_v2 m s b) = Some x"
      using same_view_call[OF v] Cons.prems(1) by simp
    have 2: "childToolToParent (assistant_result_v2 m s b) c = Some p"
      using same_view_map[OF v] Cons.prems(2) by simp
    have l: "last_result_for c (b # bs) = last_result_for c bs"
      using False by (cases b) (auto simp: is_result_for_def split: option.splits)
    show ?thesis using Cons.IH[OF 1 2] l by simp
  qed
qed

lemma user_fold_placeholder:
  assumes "parent_tool_use_id m = Some p" "p \<noteq> []" "findToolBlockById p s = Some pt"
    "childToolToParent s c = None" "\<not> has_call c pt" "last_result_for c bs = Some (rc, e)"
  shows "subagent_call c (foldl (user_block_v2 m) s bs) =
           Some ((placeholder c)\<lparr>sub_result := Some (user_contentStr rc), sub_isLoading := Some False\<rparr>)
         \<and> childToolToParent (foldl (user_block_v2 m) s bs) c = Some p"
  using assms(3,4,5,6)
proof (induction bs arbitrary: s pt)
  case Nil
  then show ?case by simp
next
  case (Cons b bs)
  show ?case
  proof (cases "is_result_for c b")
    case True
    then obtain rc0 e0 where b: "b = MToolResult c rc0 e0"
      by (cases b) (auto simp: is_result_for_def)
    note st = user_result_placeholder[OF assms(1,2) Cons.prems(1,2,3), of rc0 e0]
    show ?thesis
      using user_fold_mapped[OF st[folded b], of m bs] Cons.prems(4) b
      by (cases "last_result_for c bs") (auto split: prod.splits)
  next
    case False
    have v: "same_view c s (user_block_v2 m s b)" by (rule sv_user_block[OF False])
    from same_view_block[OF v Cons.prems(1)] obtain pt' where
      1: "findToolBlockById p (user_block_v2 m s b) = Some pt'" and h: "has_call c pt' = has_call c pt"
      by blast
    have 2: "childToolToParent (user_block_v2 m s b) c = None"
      using same_view_map[OF v] Cons.prems(2) by simp
    have 3: "\<not> has_call c pt'" using h Cons.prems(3) by simp
    have l: "last_result_for c bs = Some (rc, e)"
      using False Cons.prems(4) by (cases b) (auto simp: is_result_for_def split: option.splits)
    show ?thesis using Cons.IH[OF 1 2 3 l] by simp
  qed
qed

lemma assistant_fold_placeholder:
  assumes "parent_tool_use_id m = Some p" "p \<noteq> []" "findToolBlockById p s = Some pt"
    "childToolToParent s c = None" "\<not> has_call c pt" "last_result_for c bs = Some (rc, e)"
  shows "subagent_call c (foldl (assistant_result_v2 m) s bs) =
           Some ((placeholder c)\<lparr>sub_result := Some (assistant_contentStr rc),
                   sub_isError := Some (is_true e), sub_isLoading := Some False\<rparr>)
         \<and> childToolToParent (foldl (assistant_result_v2 m) s bs) c = Some p"
  using assms(3,4,5,6)
proof (induction bs arbitrary: s pt)
  case Nil
  then show ?case by simp
next
  case (Cons b bs)
  show ?case
  proof (cases "is_result_for c b")
    case True
    then obtain rc0 e0 where b: "b = MToolResult c rc0 e0"
      by (cases b) (auto simp: is_result_for_def)
    note st = assistant_result_placeholder[OF assms(1,2) Cons.prems(1,2,3), of rc0 e0]
    show ?thesis
      using assistant_fold_mapped[OF st[folded b], of m bs] Cons.prems(4) b
      by (cases "last_result_for c bs") (auto split: prod.splits)
  next
    case False
    have v: "same_view c s (assistant_result_v2 m s b)" by (rule sv_assistant_result[OF False])
    from same_view_block[OF v Cons.prems(1)] obtain pt' where
      1: "findToolBlockById p (assistant_result_v2 m s b) = Some pt'" and h: "has_call c pt' = has_call c pt"
      by blast
    have 2: "childToolToParent (assistant_result_v2 m s b) c = None"
      using same_view_map[OF v] Cons.prems(2) by simp
    have 3: "\<not> has_call c pt'" using h Cons.prems(3) by simp
    have l: "last_result_for c bs = Some (rc, e)"
      using False Cons.prems(4) by (cases b) (auto simp: is_result_for_def split: option.splits)
    show ?thesis using Cons.IH[OF 1 2 3 l] by simp
  qed
qed

lemma dispatch_user:
  "body m = UserMessage mc \<Longrightarrow>
   dispatch_v2 cfg now m s =
     (if truthy (parent_tool_use_id m) then foldl (user_block_v2 m) s (blocks_of_content mc) else s)"
  by (simp add: dispatch_v2_def)

lemma dispatch_assistant:
  "body m = AssistantMessage mc \<Longrightarrow> dispatch_v2 cfg now m s = assistant_v2 m mc s"
  by (simp add: dispatch_v2_def)

lemma assistant_passes_view:
  assumes "body m = AssistantMessage mc" "c \<notin> set (tool_use_ids m)"
  shows "\<exists>s2. same_view c s s2
              \<and> assistant_v2 m mc s = foldl (assistant_result_v2 m) s2 (blocks_of_content mc)"
proof -
  let ?q = "or_empty (parent_tool_use_id m)"
  define s1 where "s1 = (if truthy (parent_tool_use_id m)
                then foldl (assistant_tool_use_v2 ?q) s (blocks_of_content mc) else s)"
  define s2 where "s2 = (if truthy (parent_tool_use_id m) then assistant_text_v2 ?q mc s1 else s1)"
  have "same_view c s (foldl (assistant_tool_use_v2 ?q) s (blocks_of_content mc))"
  proof (rule sv_foldl)
    fix b and s0 :: session assume "b \<in> set (blocks_of_content mc)"
    then show "same_view c s0 (assistant_tool_use_v2 ?q s0 b)"
      using tool_use_ids_assistant[OF assms(1) _ assms(2)] by (intro sv_assistant_tool_use) blast
  qed
  then have 1: "same_view c s s1" by (simp add: s1_def)
  have 2: "same_view c s1 s2" by (simp add: s2_def sv_assistant_text)
  have "assistant_v2 m mc s = foldl (assistant_result_v2 m) s2 (blocks_of_content mc)"
    unfolding assistant_v2_def Let_def s2_def s1_def ..
  then show ?thesis using same_view_trans[OF 1 2] by blast
qed

lemma user_message_placeholder:
  assumes "parent_tool_use_id m = Some p" "p \<noteq> []" "findToolBlockById p s = Some pt"
    "childToolToParent s c = None" "\<not> has_call c pt"
    "body m = UserMessage (BlockContent bs)" "last_result_for c bs = Some (rc, e)"
  shows "subagent_call c (dispatch_v2 cfg now m s) =
           Some ((placeholder c)\<lparr>sub_result := Some (user_contentStr rc), sub_isLoading := Some False\<rparr>)
         \<and> childToolToParent (dispatch_v2 cfg now m s) c = Some p"
  using user_fold_placeholder[OF assms(1,2,3,4,5,7)] assms(1,2)
  by (simp add: dispatch_user[OF assms(6)] truthy_def blocks_of_content_def)

lemma user_message_mapped:
  assumes "subagent_call c s = Some x" "childToolToParent s c = Some p"
    "truthy (parent_tool_use_id m)"
    "body m = UserMessage (BlockContent bs)" "last_result_for c bs = Some (rc, e)"
  shows "subagent_call c (dispatch_v2 cfg now m s) =
           Some (x\<lparr>sub_result := Some (user_contentStr rc), sub_isLoading := Some False\<rparr>)
         \<and> childToolToParent (dispatch_v2 cfg now m s) c = Some p"
  using user_fold_mapped[OF assms(1,2), of m bs] assms(3,5)
  by (simp add: dispatch_user[OF assms(4)] blocks_of_content_def)

lemma assistant_message_placeholder:
  assumes "parent_tool_use_id m = Some p" "p \<noteq> []" "findToolBlockById p s = Some pt"
    "childToolToParent s c = None" "\<not> has_call c pt"
    "body m = AssistantMessage (BlockContent bs)" "c \<notin> set (tool_use_ids m)"
    "last_result_for c bs = Some (rc, e)"
  shows "subagent_call c (dispatch_v2 cfg now m s) =
           Some ((placeholder c)\<lparr>sub_result := Some (assistant_contentStr rc),
                   sub_isError := Some (is_true e), sub_isLoading := Some False\<rparr>)
         \<and> childToolToParent (dispatch_v2 cfg now m s) c = Some p"
proof -
  from assistant_passes_view[OF assms(6,7), of s] obtain s2 where
    v: "same_view c s s2"
    and e: "assistant_v2 m (BlockContent bs) s = foldl (assistant_result_v2 m) s2 bs"
    by (auto simp: blocks_of_content_def)
  from same_view_block[OF v assms(3)] obtain pt' where
    1: "findToolBlockById p s2 = Some pt'" and h: "has_call c pt' = has_call c pt"
    by blast
  have 2: "childToolToParent s2 c = None" using same_view_map[OF v] assms(4) by simp
  have 3: "\<not> has_call c pt'" using h assms(5) by simp
  show ?thesis
    using assistant_fold_placeholder[OF assms(1,2) 1 2 3 assms(8)]
    by (simp add: dispatch_assistant[OF assms(6)] e)
qed

lemma assistant_message_mapped:
  assumes "subagent_call c s = Some x" "childToolToParent s c = Some p"
    "body m = AssistantMessage (BlockContent bs)" "c \<notin> set (tool_use_ids m)"
    "last_result_for c bs = Some (rc, e)"
  shows "subagent_call c (dispatch_v2 cfg now m s) =
           Some (x\<lparr>sub_result := Some (assistant_contentStr rc), sub_isError := Some (is_true e),
                   sub_isLoading := Some False\<rparr>)
         \<and> childToolToParent (dispatch_v2 cfg now m s) c = Some p"
proof -
  from assistant_passes_view[OF assms(3,4), of s] obtain s2 where
    v: "same_view c s s2"
    and e: "assistant_v2 m (BlockContent bs) s = foldl (assistant_result_v2 m) s2 bs"
    by (auto simp: blocks_of_content_def)
  have 1: "subagent_call c s2 = Some x" using same_view_call[OF v] assms(1) by simp
  have 2: "childToolToParent s2 c = Some p" using same_view_map[OF v] assms(2) by simp
  show ?thesis
    using assistant_fold_mapped[OF 1 2, of m bs] assms(5)
    by (simp add: dispatch_assistant[OF assms(3)] e)
qed

lemma tool_use_missing_parent:
  "findToolBlockById q s = None \<Longrightarrow>
   messages (assistant_tool_use_v2 q s b) = messages s
   \<and> childToolToParent (assistant_tool_use_v2 q s b) = childToolToParent s"
  by (cases b) (simp_all add: assistant_tool_use_v2_def Let_def handleSubagentToolUseStart_def
      findToolBlockById_def)

lemma tool_use_fold_missing_parent:
  "findToolBlockById q s = None \<Longrightarrow>
   messages (foldl (assistant_tool_use_v2 q) s bs) = messages s
   \<and> childToolToParent (foldl (assistant_tool_use_v2 q) s bs) = childToolToParent s"
proof (induction bs arbitrary: s)
  case Nil
  show ?case by simp
next
  case (Cons b bs)
  note st = tool_use_missing_parent[OF Cons.prems, of b]
  have "findToolBlockById q (assistant_tool_use_v2 q s b) = None"
    using Cons.prems st findToolBlockById_cong[of "assistant_tool_use_v2 q s b" s q] by simp
  from Cons.IH[OF this] show ?case using st by simp
qed

lemma assistant_text_missing_parent:
  assumes "findToolBlockById q s = None"
  shows "messages (assistant_text_v2 q mc s) = messages s
         \<and> childToolToParent (assistant_text_v2 q mc s) = childToolToParent s"
proof -
  have "messages (setToolResult q x y s) = messages s" for x y
    unfolding setToolResult_def by (rule modifyToolBlock_unknown[OF assms])
  then show ?thesis
    by (simp add: assistant_text_v2_def Let_def appendToolResultContent_def cmap_frame)
qed

lemma user_message_dropped:
  assumes "\<not> truthy (parent_tool_use_id m) \<or> findToolBlockById (or_empty (parent_tool_use_id m)) s = None"
    "body m = UserMessage (BlockContent bs)" "results_unknown s bs"
  shows "messages (dispatch_v2 cfg now m s) = messages s
         \<and> childToolToParent (dispatch_v2 cfg now m s) = childToolToParent s"
  using fold_dropped(1)[OF assms(1,3)]
  by (simp add: dispatch_user[OF assms(2)] blocks_of_content_def)

lemma assistant_message_dropped:
  assumes "\<not> truthy (parent_tool_use_id m) \<or> findToolBlockById (or_empty (parent_tool_use_id m)) s = None"
    "body m = AssistantMessage (BlockContent bs)" "results_unknown s bs"
  shows "messages (dispatch_v2 cfg now m s) = messages s
         \<and> childToolToParent (dispatch_v2 cfg now m s) = childToolToParent s"
proof -
  let ?q = "or_empty (parent_tool_use_id m)"
  define s1 where "s1 = (if truthy (parent_tool_use_id m)
                then foldl (assistant_tool_use_v2 ?q) s bs else s)"
  define s2 where "s2 = (if truthy (parent_tool_use_id m)
                then assistant_text_v2 ?q (BlockContent bs) s1 else s1)"
  have 1: "messages s1 = messages s \<and> childToolToParent s1 = childToolToParent s"
    using assms(1) tool_use_fold_missing_parent[of ?q s bs] by (auto simp: s1_def)
  have m1: "findToolBlockById ?q s1 = None" if "truthy (parent_tool_use_id m)"
    using that assms(1) 1 findToolBlockById_cong[of s1 s ?q] by auto
  have 2: "messages s2 = messages s \<and> childToolToParent s2 = childToolToParent s"
    using 1 assistant_text_missing_parent[OF m1, of "BlockContent bs"] by (auto simp: s2_def)
  have p2: "\<not> truthy (parent_tool_use_id m) \<or> findToolBlockById ?q s2 = None"
    using assms(1) 2 findToolBlockById_cong[of s2 s ?q] by auto
  have r2: "results_unknown s2 bs"
    using assms(3) 2 results_unknown_cong[of s2 s bs] by simp
  have "assistant_v2 m (BlockContent bs) s = foldl (assistant_result_v2 m) s2 bs"
    unfolding assistant_v2_def Let_def s2_def s1_def by (simp add: blocks_of_content_def)
  then show ?thesis
    using fold_dropped(2)[OF p2 r2] 2 by (simp add: dispatch_assistant[OF assms(2)])
qed

lemma tool_use_other_parent:
  assumes "q \<noteq> []" "findToolBlockById q s = Some qt" "\<not> has_call c qt" "p_id tp = c"
  shows "subagent_call c (handleSubagentToolUseStart q tp s) =
           Some \<lparr>sub_id = c, sub_name = p_name tp, sub_input = p_input tp,
                 sub_streamIndex = p_streamIndex tp, sub_inputJson = Some (p_input tp),
                 sub_parsedInput = None, sub_result = None,
                 sub_isLoading = Some True, sub_isError = None\<rparr>"
    and "childToolToParent (handleSubagentToolUseStart q tp s) c = Some q"
proof -
  let ?new = "\<lparr>sub_id = p_id tp, sub_name = p_name tp, sub_input = p_input tp,
                 sub_streamIndex = p_streamIndex tp, sub_inputJson = Some (p_input tp),
                 sub_parsedInput = None, sub_result = None,
                 sub_isLoading = Some True, sub_isError = None\<rparr>"
  let ?F = "\<lambda>pt. if has_call (p_id tp) pt
                  then pt\<lparr>subagentCalls := Some (modify_first (\<lambda>c. sub_id c = p_id tp)
                            (\<lambda>c. c\<lparr>sub_name := p_name tp, sub_input := p_input tp,
                                   sub_streamIndex := p_streamIndex tp\<rparr>) (calls_of pt))\<rparr>
                  else pt\<lparr>subagentCalls := Some (calls_of pt @ [?new])\<rparr>"
  let ?s1 = "s\<lparr>childToolToParent := (childToolToParent s)(p_id tp \<mapsto> q)\<rparr>"
  have e: "handleSubagentToolUseStart q tp s = modifyToolBlock q ?F ?s1"
    using assms(2) by (simp add: handleSubagentToolUseStart_def)
  have "findToolBlockById q (modifyToolBlock q ?F ?s1) = map_option ?F (findToolBlockById q ?s1)"
    by (rule find_modifyToolBlock) simp
  moreover have "findToolBlockById q ?s1 = Some qt" using assms(2) by (simp add: findToolBlockById_def)
  ultimately have f: "findToolBlockById q (handleSubagentToolUseStart q tp s) = Some (?F qt)"
    by (simp add: e)
  have n: "find (\<lambda>y. sub_id y = c) (calls_of qt) = None"
    using assms(3) by (simp add: has_call_def find_None_iff_set)
  have fa: "find (\<lambda>y. sub_id y = c) (calls_of qt @ [?new]) = Some ?new"
    using n assms(4) by (simp add: find_append_None)
  show m: "childToolToParent (handleSubagentToolUseStart q tp s) c = Some q"
    using assms(4) by (simp add: e cmap_frame)
  show "subagent_call c (handleSubagentToolUseStart q tp s) =
           Some \<lparr>sub_id = c, sub_name = p_name tp, sub_input = p_input tp,
                 sub_streamIndex = p_streamIndex tp, sub_inputJson = Some (p_input tp),
                 sub_parsedInput = None, sub_result = None,
                 sub_isLoading = Some True, sub_isError = None\<rparr>"
    using f m assms(1,3,4) fa by (simp add: subagent_call_def)
qed

lemma input_delta_routed:
  assumes "subagent_call c s = Some x" "childToolToParent s c = Some p"
    "body m = StreamEvent (ContentBlockDelta i (InputJsonDelta pj))"
    "streamIndexToToolId s i = Some c"
  shows "parent_tool_use_id m = Some p \<Longrightarrow>
         subagent_call c (dispatch_v2 cfg now m s) =
           Some (case parsePartialJson cfg (or_empty (sub_inputJson x) @ pj) of
                   Some parsed \<Rightarrow> x\<lparr>sub_inputJson := Some (or_empty (sub_inputJson x) @ pj),
                                     sub_parsedInput := Some parsed\<rparr>
                 | None \<Rightarrow> x\<lparr>sub_inputJson := Some (or_empty (sub_inputJson x) @ pj)\<rparr>)"
    and "parent_tool_use_id m = Some q \<Longrightarrow> q \<noteq> [] \<Longrightarrow> q \<noteq> p \<Longrightarrow>
         subagent_call c (dispatch_v2 cfg now m s) = Some x"
proof -
  have pne: "p \<noteq> []" by (rule parent_nonempty[OF assms(1,2)])
  let ?G = "\<lambda>sc. let newInputJson = or_empty (sub_inputJson sc) @ pj in
              case parsePartialJson cfg newInputJson of
                Some parsed \<Rightarrow> sc\<lparr>sub_inputJson := Some newInputJson, sub_parsedInput := Some parsed\<rparr>
              | None \<Rightarrow> sc\<lparr>sub_inputJson := Some newInputJson\<rparr>"
  have g: "sub_id (?G y) = sub_id y" for y :: SubagentToolCall by (simp add: Let_def split: option.splits)
  {
    assume pm: "parent_tool_use_id m = Some p"
    let ?s1 = "broadcast ''chat:subagent-tool-input-delta''
                 (VObj [(''parentToolUseId'', VStr p), (''toolId'', VStr c), (''delta'', VStr pj)]) s"
    have c1: "subagent_call c ?s1 = Some x" and m1: "childToolToParent ?s1 c = Some p"
      using assms(1,2) subagent_call_cong[of ?s1 s c] by simp_all
    have e: "dispatch_v2 cfg now m s = modify_call p c ?G ?s1"
      using assms(3,4) pm pne
      by (simp add: dispatch_v2_def input_delta_v2_def Let_def truthy_def or_empty_def
          handleSubagentToolInputDelta_def)
    have "subagent_call c (modify_call p c ?G ?s1) = Some (?G x)"
      by (rule subagent_call_modify_call[OF c1 m1 g])
    then show "subagent_call c (dispatch_v2 cfg now m s) =
           Some (case parsePartialJson cfg (or_empty (sub_inputJson x) @ pj) of
                   Some parsed \<Rightarrow> x\<lparr>sub_inputJson := Some (or_empty (sub_inputJson x) @ pj),
                                     sub_parsedInput := Some parsed\<rparr>
                 | None \<Rightarrow> x\<lparr>sub_inputJson := Some (or_empty (sub_inputJson x) @ pj)\<rparr>)"
      unfolding e by (simp add: Let_def)
  }
  {
    assume pm: "parent_tool_use_id m = Some q" and qne: "q \<noteq> []" and qp: "q \<noteq> p"
    let ?s1 = "broadcast ''chat:subagent-tool-input-delta''
                 (VObj [(''parentToolUseId'', VStr q), (''toolId'', VStr c), (''delta'', VStr pj)]) s"
    let ?F = "\<lambda>pt. pt\<lparr>subagentCalls := map_option (modify_first (\<lambda>y. sub_id y = c) ?G) (subagentCalls pt)\<rparr>"
    have c1: "subagent_call c ?s1 = Some x" and m1: "childToolToParent ?s1 c = Some p"
      using assms(1,2) subagent_call_cong[of ?s1 s c] by simp_all
    have e: "dispatch_v2 cfg now m s = modify_call q c ?G ?s1"
      using assms(3,4) pm qne
      by (simp add: dispatch_v2_def input_delta_v2_def Let_def truthy_def or_empty_def
          handleSubagentToolInputDelta_def)
    have f: "findToolBlockById p (modify_call q c ?G ?s1) = findToolBlockById p ?s1"
      unfolding modify_call_def by (rule find_modifyToolBlock_other) (use qp in simp_all)
    have "subagent_call c (modify_call q c ?G ?s1) = subagent_call c ?s1"
      using m1 f by (simp add: subagent_call_def cmap_frame)
    then show "subagent_call c (dispatch_v2 cfg now m s) = Some x"
      unfolding e using c1 by simp
  }
qed

lemmas eval_v2 = eval_more sample_parents_def message_of_def tool_use_msg_def text_delta_msg_def
  result_start_msg_def placeholder_def
  dispatch_v2_def tool_use_start_v2_def handleToolUseStart_def tool_block_def input_or_empty_def
  truthy_def handleSubagentToolUseStart_def findToolBlockById_def owns_tool_def is_tool_def
  tool_in_def modifyToolBlock_def on_tool_def has_call_def calls_of_def payload_obj_def
  text_delta_v2_def appendToolResultDelta_def appendSubagentToolResultDelta_def
  subagent_target_def subagent_call_def getSubagentToolResult_def getToolResult_def
  result_start_v2_def result_parent_def stream_contentStr_def handleToolResultStart_def
  handleSubagentToolResultStart_def setToolResult_def ensure_placeholder_if_unmapped_def
  ensureSubagentToolPlaceholder_def modify_call_def is_true_def

lemmas eval_v3 = eval_v2 input_delta_msg_def input_delta_v2_def handleSubagentToolInputDelta_def
  no_parse_def


subsection \<open>The association of a child with its parent\<close>

text \<open>
  Claim C7, as amended. A child tool-use id is mapped to at most one parent at a time, and
  once a parent is learned for it no message of the runtime changes the association, and
  no other action of the session does, except a sub-agent tool-use start that declares the
  child under another parent. A parent is learned from a sub-agent tool-use start whose
  parent has a tool block, or from the placeholder made for a tool result. While the tool
  block found for the learned parent holds the child's entry, every tool-result event for
  the child is stored on that entry, whatever parent the message names: a result start
  with content, a result delta, and the last result for the child in a user message (one
  that names a parent) or in an assistant message (one that starts no tool use for the
  child). A tool-input delta is applied under the parent its own message names: on the
  entry when that is the learned parent, and not on it otherwise.
\<close>

theorem child_parent_association_stable:
  "(childToolToParent s c = Some p \<and> \<not> redeclares c p m \<longrightarrow>
       childToolToParent (dispatch_v2 cfg now m s) c = Some p)
   \<and> (childToolToParent s c = Some p \<and> (\<forall>a \<in> set acts. \<not> action_redeclares c p a)
        \<and> exec_all cfg acts s = Some s' \<longrightarrow> childToolToParent s' c = Some p)
   \<and> (childToolToParent s c = Some p \<longrightarrow> result_parent m c s = Some p)
   \<and> (findToolBlockById q s = Some pt \<longrightarrow>
        childToolToParent (handleSubagentToolUseStart q tp s) (p_id tp) = Some q)
   \<and> (q \<noteq> [] \<and> findToolBlockById q s = Some pt \<and> childToolToParent s c = None \<and> \<not> has_call c pt \<longrightarrow>
        childToolToParent (ensure_placeholder_if_unmapped q c s) c = Some q)
   \<and> (subagent_call c s = Some x \<and> childToolToParent s c = Some p
        \<and> body m = StreamEvent (ContentBlockStart i (StartResult ty (Some c) rc e))
        \<and> stream_contentStr rc \<noteq> [] \<longrightarrow>
        subagent_call c (dispatch_v2 cfg now m s) =
          Some (x\<lparr>sub_result := Some (stream_contentStr rc), sub_isError := Some (is_true e),
                  sub_isLoading := Some True\<rparr>))
   \<and> (subagent_call c s = Some x \<and> childToolToParent s c = Some p \<and> c \<noteq> [] \<and> is_result_delta c m \<longrightarrow>
        subagent_call c (dispatch_v2 cfg now m s) =
          Some (x\<lparr>sub_result := Some (or_empty (sub_result x) @ delta_text m), sub_isLoading := Some True\<rparr>))
   \<and> (subagent_call c s = Some x \<and> childToolToParent s c = Some p \<and> truthy (parent_tool_use_id m)
        \<and> body m = UserMessage (BlockContent bs) \<and> last_result_for c bs = Some (rc, e) \<longrightarrow>
        subagent_call c (dispatch_v2 cfg now m s) =
          Some (x\<lparr>sub_result := Some (user_contentStr rc), sub_isLoading := Some False\<rparr>))
   \<and> (subagent_call c s = Some x \<and> childToolToParent s c = Some p
        \<and> body m = AssistantMessage (BlockContent bs) \<and> c \<notin> set (tool_use_ids m)
        \<and> last_result_for c bs = Some (rc, e) \<longrightarrow>
        subagent_call c (dispatch_v2 cfg now m s) =
          Some (x\<lparr>sub_result := Some (assistant_contentStr rc), sub_isError := Some (is_true e),
                  sub_isLoading := Some False\<rparr>))
   \<and> (subagent_call c s = Some x \<and> childToolToParent s c = Some p
        \<and> body m = StreamEvent (ContentBlockDelta i (InputJsonDelta pj))
        \<and> streamIndexToToolId s i = Some c \<and> parent_tool_use_id m = Some q \<and> q \<noteq> [] \<longrightarrow>
        subagent_call c (dispatch_v2 cfg now m s) =
          (if q = p
           then Some (case parsePartialJson cfg (or_empty (sub_inputJson x) @ pj) of
                        Some parsed \<Rightarrow> x\<lparr>sub_inputJson := Some (or_empty (sub_inputJson x) @ pj),
                                          sub_parsedInput := Some parsed\<rparr>
                      | None \<Rightarrow> x\<lparr>sub_inputJson := Some (or_empty (sub_inputJson x) @ pj)\<rparr>)
           else Some x))"
proof (intro conjI impI)
  assume "childToolToParent s c = Some p \<and> \<not> redeclares c p m"
  then show "childToolToParent (dispatch_v2 cfg now m s) c = Some p"
    using keep_dispatch_v2 by blast
next
  assume "childToolToParent s c = Some p \<and> (\<forall>a \<in> set acts. \<not> action_redeclares c p a)
        \<and> exec_all cfg acts s = Some s'"
  then show "childToolToParent s' c = Some p" using keep_exec_all by blast
next
  assume "childToolToParent s c = Some p"
  then show "result_parent m c s = Some p" by (rule routed_to_learned)
next
  assume "findToolBlockById q s = Some pt"
  then show "childToolToParent (handleSubagentToolUseStart q tp s) (p_id tp) = Some q"
    by (rule learned_by_tool_use)
next
  assume "q \<noteq> [] \<and> findToolBlockById q s = Some pt \<and> childToolToParent s c = None \<and> \<not> has_call c pt"
  then show "childToolToParent (ensure_placeholder_if_unmapped q c s) c = Some q"
    using subagent_call_placeholder(2) by blast
next
  assume a: "subagent_call c s = Some x \<and> childToolToParent s c = Some p
        \<and> body m = StreamEvent (ContentBlockStart i (StartResult ty (Some c) rc e))
        \<and> stream_contentStr rc \<noteq> []"
  then have d: "dispatch_v2 cfg now m s = result_start_v2 m i c rc e s"
    by (simp add: dispatch_result_start)
  show "subagent_call c (dispatch_v2 cfg now m s) =
          Some (x\<lparr>sub_result := Some (stream_contentStr rc), sub_isError := Some (is_true e),
                  sub_isLoading := Some True\<rparr>)"
    unfolding d using a result_start_mapped(1) by blast
next
  assume "subagent_call c s = Some x \<and> childToolToParent s c = Some p \<and> c \<noteq> [] \<and> is_result_delta c m"
  then show "subagent_call c (dispatch_v2 cfg now m s) =
          Some (x\<lparr>sub_result := Some (or_empty (sub_result x) @ delta_text m), sub_isLoading := Some True\<rparr>)"
    using result_delta_appends(1) by blast
next
  assume "subagent_call c s = Some x \<and> childToolToParent s c = Some p \<and> truthy (parent_tool_use_id m)
        \<and> body m = UserMessage (BlockContent bs) \<and> last_result_for c bs = Some (rc, e)"
  then show "subagent_call c (dispatch_v2 cfg now m s) =
          Some (x\<lparr>sub_result := Some (user_contentStr rc), sub_isLoading := Some False\<rparr>)"
    using user_message_mapped by blast
next
  assume "subagent_call c s = Some x \<and> childToolToParent s c = Some p
        \<and> body m = AssistantMessage (BlockContent bs) \<and> c \<notin> set (tool_use_ids m)
        \<and> last_result_for c bs = Some (rc, e)"
  then show "subagent_call c (dispatch_v2 cfg now m s) =
          Some (x\<lparr>sub_result := Some (assistant_contentStr rc), sub_isError := Some (is_true e),
                  sub_isLoading := Some False\<rparr>)"
    using assistant_message_mapped by blast
next
  assume a: "subagent_call c s = Some x \<and> childToolToParent s c = Some p
        \<and> body m = StreamEvent (ContentBlockDelta i (InputJsonDelta pj))
        \<and> streamIndexToToolId s i = Some c \<and> parent_tool_use_id m = Some q \<and> q \<noteq> []"
  show "subagent_call c (dispatch_v2 cfg now m s) =
          (if q = p
           then Some (case parsePartialJson cfg (or_empty (sub_inputJson x) @ pj) of
                        Some parsed \<Rightarrow> x\<lparr>sub_inputJson := Some (or_empty (sub_inputJson x) @ pj),
                                          sub_parsedInput := Some parsed\<rparr>
                      | None \<Rightarrow> x\<lparr>sub_inputJson := Some (or_empty (sub_inputJson x) @ pj)\<rparr>)
           else Some x)"
  proof (cases "q = p")
    case True
    then show ?thesis using a input_delta_routed(1)[of c s x p m i pj cfg now] by simp
  next
    case False
    then show ?thesis using a input_delta_routed(2)[of c s x p m i pj q cfg now] by simp
  qed
qed

text \<open>
  Claim C7 as stated fails: a second sub-agent tool-use start for the same child id under
  another parent whose tool block exists replaces the association, and a tool-input delta
  that names another parent is not applied to the child's entry under the learned parent.
\<close>

theorem child_parent_association_counterexample:
  "childToolToParent
     (apply_messages (sample_config IndexTs) [(at 1004, tool_use_msg (Some ''p1'') 2 ''c1'')] sample_parents)
     ''c1'' = Some ''p1''
   \<and> childToolToParent
     (apply_messages (sample_config IndexTs)
        [(at 1004, tool_use_msg (Some ''p1'') 2 ''c1''), (at 1005, tool_use_msg (Some ''p2'') 3 ''c1'')]
        sample_parents)
     ''c1'' = Some ''p2''
   \<and> map_option sub_inputJson (subagent_call ''c1'' sample_child) = Some (Some ''{}'')
   \<and> map_option sub_inputJson
       (subagent_call ''c1''
          (dispatch_v2 (sample_config IndexTs) (at 1005) (input_delta_msg (Some ''p2'') 2 ''x'') sample_child))
       = Some (Some ''{}'')
   \<and> map_option sub_inputJson
       (subagent_call ''c1''
          (dispatch_v2 (sample_config IndexTs) (at 1005) (input_delta_msg (Some ''p1'') 2 ''x'') sample_child))
       = Some (Some ''{}x'')"
  by (simp add: eval_v3 sample_child_def)

theorem child_parent_association_stable_witness:
  "childToolToParent sample_child ''c1'' = Some ''p1''
   \<and> \<not> redeclares ''c1'' ''p1'' (result_start_msg (Some ''p2'') 3 ''c1'' ''out'')
   \<and> childToolToParent
        (dispatch_v2 (sample_config IndexTs) (at 1005) (result_start_msg (Some ''p2'') 3 ''c1'' ''out'')
           sample_child) ''c1'' = Some ''p1''
   \<and> result_parent (result_start_msg (Some ''p2'') 3 ''c1'' ''out'') ''c1'' sample_child = Some ''p1''"
proof -
  have h: "childToolToParent sample_child ''c1'' = Some ''p1''"
    by (simp add: sample_child_def eval_v2)
  have n: "\<not> redeclares ''c1'' ''p1'' (result_start_msg (Some ''p2'') 3 ''c1'' ''out'')"
    by (simp add: redeclares_def tool_use_ids_def result_start_msg_def message_of_def)
  show ?thesis
    using h n
      child_parent_association_stable[of sample_child "''c1''" "''p1''"
        "result_start_msg (Some ''p2'') 3 ''c1'' ''out''" "sample_config IndexTs" "at 1005"]
    by blast
qed


subsection \<open>Placeholders for tool results\<close>

text \<open>
  Claim C6, as amended. A tool-result start with non-empty content, or the last tool
  result for the id in a user message or in an assistant message (one that starts no tool
  use for the id), that names a child id not yet mapped and comes with the id of a parent
  whose tool block is in the transcript and holds no entry for the child, creates a
  placeholder entry for the child id under that parent, maps the child to the parent and
  stores the result on the placeholder. Tool-result deltas for the child id that follow
  append to that result in arrival order. A tool-use start for the child that comes later
  under the same parent keeps the result; under another parent whose tool block holds no
  entry for the child it makes a new entry without a result. A tool-result delta or start
  for an unmapped id that has no tool block of its own, and a user or assistant message
  whose tool results are all for such ids, coming without a parent tool block in the
  transcript, create no placeholder: they leave the transcript and the parent map as they
  are. The handlers have no failing path.
\<close>

theorem tool_result_placeholder:
  "(parent_tool_use_id m = Some p \<and> p \<noteq> [] \<and> findToolBlockById p s = Some pt
      \<and> childToolToParent s c = None \<and> \<not> has_call c pt
      \<and> body m = StreamEvent (ContentBlockStart i (StartResult ty (Some c) rc e))
      \<and> stream_contentStr rc \<noteq> [] \<longrightarrow>
        subagent_call c (dispatch_v2 cfg now m s) =
          Some ((placeholder c)\<lparr>sub_result := Some (stream_contentStr rc),
                  sub_isError := Some (is_true e), sub_isLoading := Some True\<rparr>)
        \<and> childToolToParent (dispatch_v2 cfg now m s) c = Some p)
   \<and> (parent_tool_use_id m = Some p \<and> p \<noteq> [] \<and> findToolBlockById p s = Some pt
      \<and> childToolToParent s c = None \<and> \<not> has_call c pt
      \<and> body m = UserMessage (BlockContent bs) \<and> last_result_for c bs = Some (rc, e) \<longrightarrow>
        subagent_call c (dispatch_v2 cfg now m s) =
          Some ((placeholder c)\<lparr>sub_result := Some (user_contentStr rc), sub_isLoading := Some False\<rparr>)
        \<and> childToolToParent (dispatch_v2 cfg now m s) c = Some p)
   \<and> (parent_tool_use_id m = Some p \<and> p \<noteq> [] \<and> findToolBlockById p s = Some pt
      \<and> childToolToParent s c = None \<and> \<not> has_call c pt
      \<and> body m = AssistantMessage (BlockContent bs) \<and> c \<notin> set (tool_use_ids m)
      \<and> last_result_for c bs = Some (rc, e) \<longrightarrow>
        subagent_call c (dispatch_v2 cfg now m s) =
          Some ((placeholder c)\<lparr>sub_result := Some (assistant_contentStr rc),
                  sub_isError := Some (is_true e), sub_isLoading := Some False\<rparr>)
        \<and> childToolToParent (dispatch_v2 cfg now m s) c = Some p)
   \<and> (subagent_call c s = Some x \<and> childToolToParent s c = Some p \<and> c \<noteq> []
      \<and> (\<forall>d \<in> set msgs. is_result_delta c (snd d)) \<longrightarrow>
        or_empty (getSubagentToolResult c (apply_messages cfg msgs s))
          = or_empty (sub_result x) @ concat (map (\<lambda>d. delta_text (snd d)) msgs)
        \<and> subagent_call c (apply_messages cfg msgs s) \<noteq> None)
   \<and> (subagent_call c s = Some x \<and> childToolToParent s c = Some p \<and> p_id tp = c \<longrightarrow>
        subagent_call c (handleSubagentToolUseStart p tp s) =
          Some (x\<lparr>sub_name := p_name tp, sub_input := p_input tp, sub_streamIndex := p_streamIndex tp\<rparr>))
   \<and> (q \<noteq> [] \<and> findToolBlockById q s = Some qt \<and> \<not> has_call c qt \<and> p_id tp = c \<longrightarrow>
        subagent_call c (handleSubagentToolUseStart q tp s) =
          Some \<lparr>sub_id = c, sub_name = p_name tp, sub_input = p_input tp,
                sub_streamIndex = p_streamIndex tp, sub_inputJson = Some (p_input tp),
                sub_parsedInput = None, sub_result = None,
                sub_isLoading = Some True, sub_isError = None\<rparr>
        \<and> childToolToParent (handleSubagentToolUseStart q tp s) c = Some q)
   \<and> (is_result_delta c m \<and> c \<noteq> [] \<and> childToolToParent s c = None \<and> findToolBlockById c s = None \<longrightarrow>
        messages (dispatch_v2 cfg now m s) = messages s
        \<and> childToolToParent (dispatch_v2 cfg now m s) = childToolToParent s)
   \<and> ((\<not> truthy (parent_tool_use_id m) \<or> findToolBlockById (or_empty (parent_tool_use_id m)) s = None)
      \<and> childToolToParent s c = None \<and> findToolBlockById c s = None
      \<and> body m = StreamEvent (ContentBlockStart i (StartResult ty (Some c) rc e)) \<longrightarrow>
        messages (dispatch_v2 cfg now m s) = messages s
        \<and> childToolToParent (dispatch_v2 cfg now m s) = childToolToParent s)
   \<and> ((\<not> truthy (parent_tool_use_id m) \<or> findToolBlockById (or_empty (parent_tool_use_id m)) s = None)
      \<and> results_unknown s bs
      \<and> (body m = UserMessage (BlockContent bs) \<or> body m = AssistantMessage (BlockContent bs)) \<longrightarrow>
        messages (dispatch_v2 cfg now m s) = messages s
        \<and> childToolToParent (dispatch_v2 cfg now m s) = childToolToParent s)"
proof (intro conjI impI)
  assume a: "parent_tool_use_id m = Some p \<and> p \<noteq> [] \<and> findToolBlockById p s = Some pt
      \<and> childToolToParent s c = None \<and> \<not> has_call c pt
      \<and> body m = StreamEvent (ContentBlockStart i (StartResult ty (Some c) rc e))
      \<and> stream_contentStr rc \<noteq> []"
  then have d: "dispatch_v2 cfg now m s = result_start_v2 m i c rc e s"
    by (simp add: dispatch_result_start)
  show "subagent_call c (dispatch_v2 cfg now m s) =
          Some ((placeholder c)\<lparr>sub_result := Some (stream_contentStr rc),
                  sub_isError := Some (is_true e), sub_isLoading := Some True\<rparr>)"
    unfolding d using a result_start_placeholder(1)[of m p s pt c rc i e] by simp
  show "childToolToParent (dispatch_v2 cfg now m s) c = Some p"
    unfolding d using a result_start_placeholder(2)[of m p s pt c rc i e] by simp
next
  assume a: "parent_tool_use_id m = Some p \<and> p \<noteq> [] \<and> findToolBlockById p s = Some pt
      \<and> childToolToParent s c = None \<and> \<not> has_call c pt
      \<and> body m = UserMessage (BlockContent bs) \<and> last_result_for c bs = Some (rc, e)"
  then have r: "subagent_call c (dispatch_v2 cfg now m s) =
          Some ((placeholder c)\<lparr>sub_result := Some (user_contentStr rc), sub_isLoading := Some False\<rparr>)
        \<and> childToolToParent (dispatch_v2 cfg now m s) c = Some p"
    using user_message_placeholder by blast
  from r show "subagent_call c (dispatch_v2 cfg now m s) =
          Some ((placeholder c)\<lparr>sub_result := Some (user_contentStr rc), sub_isLoading := Some False\<rparr>)"
    by simp
  from r show "childToolToParent (dispatch_v2 cfg now m s) c = Some p" by simp
next
  assume a: "parent_tool_use_id m = Some p \<and> p \<noteq> [] \<and> findToolBlockById p s = Some pt
      \<and> childToolToParent s c = None \<and> \<not> has_call c pt
      \<and> body m = AssistantMessage (BlockContent bs) \<and> c \<notin> set (tool_use_ids m)
      \<and> last_result_for c bs = Some (rc, e)"
  then have r: "subagent_call c (dispatch_v2 cfg now m s) =
          Some ((placeholder c)\<lparr>sub_result := Some (assistant_contentStr rc),
                  sub_isError := Some (is_true e), sub_isLoading := Some False\<rparr>)
        \<and> childToolToParent (dispatch_v2 cfg now m s) c = Some p"
    using assistant_message_placeholder by blast
  from r show "subagent_call c (dispatch_v2 cfg now m s) =
          Some ((placeholder c)\<lparr>sub_result := Some (assistant_contentStr rc),
                  sub_isError := Some (is_true e), sub_isLoading := Some False\<rparr>)"
    by simp
  from r show "childToolToParent (dispatch_v2 cfg now m s) c = Some p" by simp
next
  assume a: "subagent_call c s = Some x \<and> childToolToParent s c = Some p \<and> c \<noteq> []
      \<and> (\<forall>d \<in> set msgs. is_result_delta c (snd d))"
  then have r: "or_empty (getSubagentToolResult c (apply_messages cfg msgs s))
     = or_empty (sub_result x) @ concat (map (\<lambda>m. delta_text (snd m)) msgs)
   \<and> subagent_call c (apply_messages cfg msgs s) \<noteq> None
   \<and> childToolToParent (apply_messages cfg msgs s) c = Some p"
    using result_deltas_accumulate[of c s x p msgs cfg] by blast
  from r show "or_empty (getSubagentToolResult c (apply_messages cfg msgs s))
          = or_empty (sub_result x) @ concat (map (\<lambda>d. delta_text (snd d)) msgs)" by simp
  from r show "subagent_call c (apply_messages cfg msgs s) \<noteq> None" by simp
next
  assume "subagent_call c s = Some x \<and> childToolToParent s c = Some p \<and> p_id tp = c"
  then show "subagent_call c (handleSubagentToolUseStart p tp s) =
          Some (x\<lparr>sub_name := p_name tp, sub_input := p_input tp, sub_streamIndex := p_streamIndex tp\<rparr>)"
    using tool_use_after_placeholder by blast
next
  assume a: "q \<noteq> [] \<and> findToolBlockById q s = Some qt \<and> \<not> has_call c qt \<and> p_id tp = c"
  show "subagent_call c (handleSubagentToolUseStart q tp s) =
          Some \<lparr>sub_id = c, sub_name = p_name tp, sub_input = p_input tp,
                sub_streamIndex = p_streamIndex tp, sub_inputJson = Some (p_input tp),
                sub_parsedInput = None, sub_result = None,
                sub_isLoading = Some True, sub_isError = None\<rparr>"
    using a tool_use_other_parent(1) by blast
  show "childToolToParent (handleSubagentToolUseStart q tp s) c = Some q"
    using a tool_use_other_parent(2) by blast
next
  assume a: "is_result_delta c m \<and> c \<noteq> [] \<and> childToolToParent s c = None \<and> findToolBlockById c s = None"
  show "messages (dispatch_v2 cfg now m s) = messages s"
    using a unknown_delta_dropped(1) by blast
  show "childToolToParent (dispatch_v2 cfg now m s) = childToolToParent s"
    using a unknown_delta_dropped(2) by blast
next
  assume a: "(\<not> truthy (parent_tool_use_id m) \<or> findToolBlockById (or_empty (parent_tool_use_id m)) s = None)
      \<and> childToolToParent s c = None \<and> findToolBlockById c s = None
      \<and> body m = StreamEvent (ContentBlockStart i (StartResult ty (Some c) rc e))"
  then have d: "dispatch_v2 cfg now m s = result_start_v2 m i c rc e s"
    by (simp add: dispatch_result_start)
  show "messages (dispatch_v2 cfg now m s) = messages s"
    unfolding d using a unparented_start_dropped(1)[of m s c i rc e] by blast
  show "childToolToParent (dispatch_v2 cfg now m s) = childToolToParent s"
    unfolding d using a unparented_start_dropped(2)[of m s c i rc e] by blast
next
  assume a: "(\<not> truthy (parent_tool_use_id m) \<or> findToolBlockById (or_empty (parent_tool_use_id m)) s = None)
      \<and> results_unknown s bs
      \<and> (body m = UserMessage (BlockContent bs) \<or> body m = AssistantMessage (BlockContent bs))"
  then have r: "messages (dispatch_v2 cfg now m s) = messages s
        \<and> childToolToParent (dispatch_v2 cfg now m s) = childToolToParent s"
    using user_message_dropped[of m s bs cfg now] assistant_message_dropped[of m s bs cfg now] by blast
  from r show "messages (dispatch_v2 cfg now m s) = messages s" by simp
  from r show "childToolToParent (dispatch_v2 cfg now m s) = childToolToParent s" by simp
qed

text \<open>
  Claim C6 as stated fails: tool-result deltas for an id that was never started, alone or
  after a tool-result start without parent, create no placeholder and accumulate nowhere;
  a completed tool result in a message that names no parent, or a parent without a tool
  block, is dropped as well, and so is a tool-result start whose content is empty.
\<close>

theorem tool_result_placeholder_counterexample:
  "messages (apply_messages (sample_config IndexTs)
       [(at 1002, text_delta_msg (Some ''t9'') ''ab''), (at 1003, text_delta_msg (Some ''t9'') ''cd'')]
       (sample_running IndexTs)) = messages (sample_running IndexTs)
   \<and> subagent_call ''t9'' (apply_messages (sample_config IndexTs)
       [(at 1002, text_delta_msg (Some ''t9'') ''ab''), (at 1003, text_delta_msg (Some ''t9'') ''cd'')]
       (sample_running IndexTs)) = None
   \<and> getSubagentToolResult ''t9'' (apply_messages (sample_config IndexTs)
       [(at 1002, text_delta_msg (Some ''t9'') ''ab''), (at 1003, text_delta_msg (Some ''t9'') ''cd'')]
       (sample_running IndexTs)) = None
   \<and> getToolResult ''t9'' (apply_messages (sample_config IndexTs)
       [(at 1002, text_delta_msg (Some ''t9'') ''ab''), (at 1003, text_delta_msg (Some ''t9'') ''cd'')]
       (sample_running IndexTs)) = None
   \<and> messages (apply_messages (sample_config IndexTs)
       [(at 1002, result_start_msg None 0 ''t9'' ''ab''), (at 1003, text_delta_msg (Some ''t9'') ''cd'')]
       (sample_running IndexTs)) = messages (sample_running IndexTs)
   \<and> subagent_call ''t9'' (apply_messages (sample_config IndexTs)
       [(at 1002, result_start_msg None 0 ''t9'' ''ab''), (at 1003, text_delta_msg (Some ''t9'') ''cd'')]
       (sample_running IndexTs)) = None
   \<and> getToolResult ''t9'' (apply_messages (sample_config IndexTs)
       [(at 1002, result_start_msg None 0 ''t9'' ''ab''), (at 1003, text_delta_msg (Some ''t9'') ''cd'')]
       (sample_running IndexTs)) = None
   \<and> messages (dispatch_v2 (sample_config IndexTs) (at 1002) (user_result_msg None ''t9'' ''ab'')
       sample_parents) = messages sample_parents
   \<and> messages (dispatch_v2 (sample_config IndexTs) (at 1002) (user_result_msg (Some ''p7'') ''t9'' ''ab'')
       sample_parents) = messages sample_parents
   \<and> childToolToParent (dispatch_v2 (sample_config IndexTs) (at 1002)
       (user_result_msg (Some ''p7'') ''t9'' ''ab'') sample_parents) ''t9'' = None
   \<and> messages (dispatch_v2 (sample_config IndexTs) (at 1004)
       (result_start_msg (Some ''p1'') 2 ''c1'' []) sample_parents) = messages sample_parents
   \<and> childToolToParent (dispatch_v2 (sample_config IndexTs) (at 1004)
       (result_start_msg (Some ''p1'') 2 ''c1'' []) sample_parents) ''c1'' = None"
  by (simp add: eval_v2 user_result_msg_def user_block_v2_def handleToolResultComplete_def
      handleSubagentToolResultComplete_def blocks_of_content_def user_contentStr_def)

theorem tool_result_placeholder_witness:
  "childToolToParent sample_parents ''c1'' = None
   \<and> subagent_call ''c1'' sample_placeholder =
       Some ((placeholder ''c1'')\<lparr>sub_result := Some ''ab'', sub_isError := Some False,
               sub_isLoading := Some True\<rparr>)
   \<and> or_empty (getSubagentToolResult ''c1''
        (apply_messages (sample_config IndexTs)
           [(at 1005, text_delta_msg (Some ''c1'') ''cd''), (at 1006, text_delta_msg (Some ''c1'') ''ef'')]
           sample_placeholder)) = ''abcdef''"
proof -
  let ?m = "result_start_msg (Some ''p1'') 2 ''c1'' ''ab''"
  have "\<exists>pt. findToolBlockById ''p1'' sample_parents = Some pt \<and> \<not> has_call ''c1'' pt"
    by (simp add: eval_v2)
  then obtain pt where pt: "findToolBlockById ''p1'' sample_parents = Some pt" "\<not> has_call ''c1'' pt"
    by blast
  have u: "childToolToParent sample_parents ''c1'' = None" by (simp add: eval_v2)
  have b: "parent_tool_use_id ?m = Some ''p1''"
    "body ?m = StreamEvent (ContentBlockStart 2 (StartResult ToolResult (Some ''c1'') (CString ''ab'') None))"
    "stream_contentStr (CString ''ab'') \<noteq> []"
    by (simp_all add: result_start_msg_def message_of_def stream_contentStr_def)
  have 1: "subagent_call ''c1'' sample_placeholder =
          Some ((placeholder ''c1'')\<lparr>sub_result := Some (stream_contentStr (CString ''ab'')),
                  sub_isError := Some (is_true None), sub_isLoading := Some True\<rparr>)
        \<and> childToolToParent sample_placeholder ''c1'' = Some ''p1''"
    unfolding sample_placeholder_def
    by (rule tool_result_placeholder[THEN conjunct1, rule_format]) (use pt u b in simp)
  have d: "\<forall>d \<in> set [(at 1005, text_delta_msg (Some ''c1'') ''cd''), (at 1006, text_delta_msg (Some ''c1'') ''ef'')].
             is_result_delta ''c1'' (snd d)"
    by (simp add: is_result_delta_def text_delta_msg_def message_of_def)
  have 2: "or_empty (getSubagentToolResult ''c1''
        (apply_messages (sample_config IndexTs)
           [(at 1005, text_delta_msg (Some ''c1'') ''cd''), (at 1006, text_delta_msg (Some ''c1'') ''ef'')]
           sample_placeholder))
      = or_empty (sub_result ((placeholder ''c1'')\<lparr>sub_result := Some (stream_contentStr (CString ''ab'')),
                  sub_isError := Some (is_true None), sub_isLoading := Some True\<rparr>))
        @ concat (map (\<lambda>d. delta_text (snd d))
            [(at 1005, text_delta_msg (Some ''c1'') ''cd''), (at 1006, text_delta_msg (Some ''c1'') ''ef'')])"
    using tool_result_placeholder[where c = "''c1''" and s = sample_placeholder and p = "''p1''"
        and cfg = "sample_config IndexTs"
        and msgs = "[(at 1005, text_delta_msg (Some ''c1'') ''cd''), (at 1006, text_delta_msg (Some ''c1'') ''ef'')]"
        and x = "(placeholder ''c1'')\<lparr>sub_result := Some (stream_contentStr (CString ''ab'')),
                  sub_isError := Some (is_true None), sub_isLoading := Some True\<rparr>",
        THEN conjunct2, THEN conjunct2, THEN conjunct2, THEN conjunct1, rule_format] 1 d
    by simp
  show ?thesis
    using u 1 2
    by (simp add: stream_contentStr_def is_true_def or_empty_def delta_text_def text_delta_msg_def message_of_def)
qed

end
